(* ===== verification/Prelude.thy ===== *)
theory Prelude
  imports Main "HOL-Library.Word"
begin

text \<open>
  Shared vocabulary of the development: the names of the C++ exceptions that the sources can
  raise, the integer constants that several files use, memory buffers written at an offset, and
  the generic facts on lists and maps that the component theories rely on.
\<close>

named_theorems text_simps \<open>facts about decimal text: std::stoi and stream output\<close>
named_theorems frame_simps \<open>facts about the fixed layout of messages\<close>
named_theorems sess_simps \<open>facts about the session tables\<close>

section \<open>Types and constants\<close>

text \<open>
  A C++ \<^verbatim>\<open>char\<close> is one byte. A \<^verbatim>\<open>char*\<close> buffer is the list of its bytes, a
  \<^verbatim>\<open>std::string\<close> is the list of its characters, and a socket descriptor is the
  \<^verbatim>\<open>int\<close> the system calls hand out.
\<close>

type_synonym buffer = "char list"
type_synonym sock = int

datatype cxx_exn = Invalid_argument | Out_of_range

type_synonym 'a outcome = "cxx_exn + 'a"

definition NUL :: char where
  "NUL = CHR 0x00"

definition SOCKET_ERROR :: int where
  "SOCKET_ERROR = -1"

definition INT_MIN :: int where
  "INT_MIN = - (2 ^ 31)"

definition INT_MAX :: int where
  "INT_MAX = 2 ^ 31 - 1"

section \<open>Buffers\<close>

text \<open>
  \<^verbatim>\<open>recv(s, buffer + off, ...)\<close> stores the bytes \<open>bs\<close> from offset \<open>off\<close> on and
  leaves the rest of the buffer alone.
\<close>

definition overwrite :: "buffer \<Rightarrow> nat \<Rightarrow> char list \<Rightarrow> buffer" where
  "overwrite buf off bs = take off buf @ bs @ drop (off + length bs) buf"

lemma length_overwrite [simp]:
  "off + length bs \<le> length buf \<Longrightarrow> length (overwrite buf off bs) = length buf"
  by (simp add: overwrite_def)

lemma overwrite_Nil [simp]: "overwrite buf off [] = buf"
  by (simp add: overwrite_def)

lemma take_overwrite:
  "off \<le> length buf \<Longrightarrow> take (off + length bs) (overwrite buf off bs) = take off buf @ bs"
  by (simp add: overwrite_def)

lemma overwrite_overwrite:
  assumes "off \<le> length buf"
  shows "overwrite (overwrite buf off xs) (off + length xs) ys = overwrite buf off (xs @ ys)"
  using assms by (simp add: overwrite_def ac_simps)

lemma nth_overwrite_above:
  assumes "off \<le> length buf" "off + length bs \<le> i" "i < length buf"
  shows "overwrite buf off bs ! i = buf ! i"
  using assms by (auto simp: overwrite_def nth_append)

section \<open>Generic facts\<close>

lemma takeWhile_append_all [simp]:
  "\<forall>x\<in>set xs. P x \<Longrightarrow> takeWhile P (xs @ ys) = xs @ takeWhile P ys"
  by (induction xs) auto

lemma dropWhile_hd [simp]: "xs \<noteq> [] \<Longrightarrow> \<not> P (hd xs) \<Longrightarrow> dropWhile P xs = xs"
  by (cases xs) auto

lemma map_option_comp_upd [simp]:
  "(\<lambda>x. map_option f ((m(k := v)) x)) = (\<lambda>x. map_option f (m x))(k := map_option f v)"
  by auto

end
