(* ===== verification/Cxx_Text.thy ===== *)
theory Cxx_Text
  imports Prelude
begin

text \<open>
  The part of the C++ standard library that both programs use to turn numbers into text and
  back: \<^verbatim>\<open>std::stoi\<close> (through \<^verbatim>\<open>strtol\<close> in base 10, with its two exceptions) and
  \<^verbatim>\<open>std::ostringstream << std::setw(w) << std::setfill('0') << n\<close>. The interface
  \<open>fixed_field\<close> collects what the message formats need of such a pair: fixed width and decoding
  after encoding. It is interpreted for node identifiers (three characters) and for message type
  identifiers (four characters).
\<close>

section \<open>Parsing: std::stoi\<close>

definition is_digit :: "char \<Rightarrow> bool" where
  "is_digit c \<longleftrightarrow> c \<in> set ''0123456789''"

definition is_space :: "char \<Rightarrow> bool" where
  "is_space c \<longleftrightarrow> c \<in> set [CHR '' '', CHR 0x09, CHR 0x0A, CHR 0x0B, CHR 0x0C, CHR 0x0D]"

definition digit_val :: "char \<Rightarrow> int" where
  "digit_val c = of_char c - 48"

definition digits_val :: "string \<Rightarrow> int" where
  "digits_val ds = foldl (\<lambda>a c. 10 * a + digit_val c) 0 ds"

definition c_str :: "string \<Rightarrow> string" where
  "c_str s = takeWhile (\<lambda>c. c \<noteq> NUL) s"

fun strtol_sign :: "string \<Rightarrow> int \<times> string" where
  "strtol_sign [] = (1, [])"
| "strtol_sign (c # cs) =
     (if c = CHR ''-'' then (-1, cs) else if c = CHR ''+'' then (1, cs) else (1, c # cs))"

definition strtol :: "string \<Rightarrow> int option" where
  "strtol s =
     (case strtol_sign (dropWhile is_space s) of (sg, t) \<Rightarrow>
        let ds = takeWhile is_digit t
        in if ds = [] then None else Some (sg * digits_val ds))"

definition stoi :: "string \<Rightarrow> int outcome" where
  "stoi s =
     (case strtol (c_str s) of
        None \<Rightarrow> Inl Invalid_argument
      | Some v \<Rightarrow> if INT_MIN \<le> v \<and> v \<le> INT_MAX then Inr v else Inl Out_of_range)"

section \<open>Printing: setw, setfill and operator<< on int\<close>

definition digit_char :: "nat \<Rightarrow> char" where
  "digit_char d = char_of (48 + d)"

fun show_nat :: "nat \<Rightarrow> string" where
  "show_nat n = (if n < 10 then [digit_char n] else show_nat (n div 10) @ [digit_char (n mod 10)])"

declare show_nat.simps [simp del]

definition show_int :: "int \<Rightarrow> string" where
  "show_int i = (if i < 0 then CHR ''-'' # show_nat (nat (- i)) else show_nat (nat i))"

definition setw_setfill0 :: "nat \<Rightarrow> int \<Rightarrow> string" where
  "setw_setfill0 w i = replicate (w - length (show_int i)) (CHR ''0'') @ show_int i"

section \<open>Digits\<close>

lemma less_10_cases:
  "(n::nat) < 10 \<longleftrightarrow> n = 0 \<or> n = 1 \<or> n = 2 \<or> n = 3 \<or> n = 4 \<or> n = 5 \<or> n = 6 \<or> n = 7 \<or> n = 8 \<or> n = 9"
  by auto

lemma digit_char_numerals [text_simps]:
  "digit_char 0 = CHR ''0''" "digit_char 1 = CHR ''1''" "digit_char (Suc 0) = CHR ''1''"
  "digit_char 2 = CHR ''2''" "digit_char 3 = CHR ''3''" "digit_char 4 = CHR ''4''"
  "digit_char 5 = CHR ''5''" "digit_char 6 = CHR ''6''" "digit_char 7 = CHR ''7''"
  "digit_char 8 = CHR ''8''" "digit_char 9 = CHR ''9''"
  by code_simp+

lemma is_digit_digit_char [simp]: "d < 10 \<Longrightarrow> is_digit (digit_char d)"
  by (auto simp: less_10_cases is_digit_def digit_char_numerals)

lemma digit_val_digit_char [simp]: "d < 10 \<Longrightarrow> digit_val (digit_char d) = int d"
  by (auto simp: less_10_cases digit_val_def digit_char_numerals)

lemma digit_val_bounds: "is_digit c \<Longrightarrow> 0 \<le> digit_val c \<and> digit_val c \<le> 9"
  by (auto simp: is_digit_def digit_val_def)

lemma digit_val_0 [simp]: "digit_val (CHR ''0'') = 0"
  by (simp add: digit_val_def)

lemma is_digit_0 [simp]: "is_digit (CHR ''0'')"
  by (simp add: is_digit_def)

lemma not_space_digit: "is_digit c \<Longrightarrow> \<not> is_space c"
  by (auto simp: is_digit_def is_space_def)

lemma not_sign_digit: "is_digit c \<Longrightarrow> c \<noteq> CHR ''-'' \<and> c \<noteq> CHR ''+'' \<and> c \<noteq> NUL"
  by (auto simp: is_digit_def NUL_def)

lemma digits_val_Nil [simp]: "digits_val [] = 0"
  by (simp add: digits_val_def)

lemma digits_val_snoc [simp]: "digits_val (ds @ [d]) = 10 * digits_val ds + digit_val d"
  by (simp add: digits_val_def)

lemma digits_val_bounds:
  "\<forall>c\<in>set ds. is_digit c \<Longrightarrow> 0 \<le> digits_val ds \<and> digits_val ds < 10 ^ length ds"
proof (induction ds rule: rev_induct)
  case Nil
  then show ?case by simp
next
  case (snoc d ds)
  then have "0 \<le> digit_val d" "digit_val d \<le> 9" and "0 \<le> digits_val ds"
    and "digits_val ds \<le> 10 ^ length ds - 1"
    using digit_val_bounds [of d] by auto
  then show ?case by simp
qed

lemma digits_val_zeros [simp]: "digits_val (replicate k (CHR ''0'') @ ds) = digits_val ds"
proof (induction ds rule: rev_induct)
  case Nil
  show ?case
  proof (induction k)
    case (Suc k)
    have "replicate (Suc k) (CHR ''0'') = replicate k (CHR ''0'') @ [CHR ''0'']"
      by (simp add: replicate_append_same)
    with Suc show ?case by (simp only: append_Nil2 digits_val_snoc) simp
  qed simp
next
  case (snoc d ds)
  then show ?case by (simp flip: append_assoc)
qed

section \<open>Printed numbers\<close>

lemma show_nat_digits: "\<forall>c\<in>set (show_nat n). is_digit c"
proof (induction n rule: show_nat.induct)
  case (1 n)
  then show ?case by (cases "n < 10") (auto simp: show_nat.simps [of n])
qed

lemma show_nat_not_Nil [simp]: "show_nat n \<noteq> []"
  by (simp add: show_nat.simps [of n])

lemma digits_val_show_nat [simp]: "digits_val (show_nat n) = int n"
proof (induction n rule: show_nat.induct)
  case (1 n)
  show ?case
  proof (cases "n < 10")
    case True
    then show ?thesis
      using digits_val_snoc [of "[]" "digit_char n"] by (simp add: show_nat.simps [of n])
  next
    case False
    have "10 * int (n div 10) + int (n mod 10) = int n"
      using div_mult_mod_eq [of n 10] by linarith
    with False "1" show ?thesis by (simp add: show_nat.simps [of n])
  qed
qed

lemma length_show_nat: "length (show_nat n) \<le> Suc k \<longleftrightarrow> n < 10 ^ Suc k"
proof (induction k arbitrary: n)
  case 0
  show ?case by (cases "n < 10") (auto simp: show_nat.simps [of n])
next
  case (Suc k)
  show ?case
  proof (cases "n < 10")
    case True
    then have "n < 10 ^ Suc (Suc k)"
      by (rule less_le_trans) (simp add: self_le_power)
    with True show ?thesis by (simp add: show_nat.simps [of n])
  next
    case False
    have "n div 10 < 10 ^ Suc k \<longleftrightarrow> n < 10 ^ Suc (Suc k)"
      by (simp add: less_mult_imp_div_less div_less_iff_less_mult mult.commute)
    with False Suc.IH [of "n div 10"] show ?thesis by (simp add: show_nat.simps [of n])
  qed
qed

lemma show_int_nonneg [simp]: "0 \<le> i \<Longrightarrow> show_int i = show_nat (nat i)"
  by (simp add: show_int_def)

lemma length_setw_setfill0: "length (setw_setfill0 w i) = max w (length (show_int i))"
  by (simp add: setw_setfill0_def)

section \<open>Decoding what was printed\<close>

lemma c_str_terminated: "c_str (s @ NUL # r) = c_str s"
  by (induction s) (auto simp: c_str_def)

lemma c_str_digits:
  "\<forall>c\<in>set ds. is_digit c \<Longrightarrow> c_str (ds @ r) = ds @ c_str r"
  using not_sign_digit by (auto simp: c_str_def)

lemma strtol_digits:
  assumes "\<forall>c\<in>set ds. is_digit c" and "ds \<noteq> []" and "r = [] \<or> \<not> is_digit (hd r)"
  shows "strtol (ds @ r) = Some (digits_val ds)"
proof -
  obtain d ds' where d: "ds = d # ds'" using assms(2) by (cases ds) auto
  with assms(1) have dd: "is_digit d" by simp
  have "dropWhile is_space (ds @ r) = ds @ r"
    using d dd not_space_digit by simp
  moreover have "strtol_sign (ds @ r) = (1, ds @ r)"
    using d not_sign_digit [OF dd] by simp
  moreover have "takeWhile is_digit (ds @ r) = ds"
    using assms(1,3) by (cases r) auto
  ultimately show ?thesis
    using assms(2) by (simp add: strtol_def Let_def)
qed

lemma stoi_setw:
  assumes "0 \<le> i" and "i \<le> INT_MAX" and "r = [] \<or> \<not> is_digit (hd r)"
  shows "stoi (setw_setfill0 w i @ r) = Inr i"
proof -
  define ds where "ds = setw_setfill0 w i"
  have ds: "\<forall>c\<in>set ds. is_digit c" "ds \<noteq> []" "digits_val ds = i"
    using assms(1) show_nat_digits [of "nat i"] by (auto simp: ds_def setw_setfill0_def)
  have "c_str r = [] \<or> \<not> is_digit (hd (c_str r))"
    using assms(3) by (cases r) (auto simp: c_str_def)
  with ds have "strtol (c_str (ds @ r)) = Some i"
    using strtol_digits [of ds "c_str r"] by (simp add: c_str_digits)
  then show ?thesis
    using assms(1,2) by (simp add: stoi_def ds_def [symmetric] INT_MIN_def)
qed

text \<open>A short text cannot overflow: with at most nine characters \<^verbatim>\<open>stoi\<close> never raises
  \<^verbatim>\<open>out_of_range\<close>, and the value is bounded by the number of characters.\<close>

lemma strtol_bound:
  assumes "strtol s = Some v"
  shows "\<bar>v\<bar> < 10 ^ length s"
proof -
  define t where "t = dropWhile is_space s"
  obtain sg u where su: "strtol_sign t = (sg, u)" by fastforce
  have lt: "length t \<le> length s" by (simp add: t_def length_dropWhile_le)
  have lu: "length u \<le> length t" and sg: "\<bar>sg\<bar> = 1"
    using su by (cases t; auto split: if_splits)+
  define ds where "ds = takeWhile is_digit u"
  have v: "v = sg * digits_val ds"
    using assms su by (auto simp: strtol_def t_def [symmetric] ds_def Let_def split: if_splits)
  have "length ds \<le> length s"
    using lu lt length_takeWhile_le [of is_digit u] by (simp add: ds_def)
  have "\<forall>c\<in>set ds. is_digit c" by (auto simp: ds_def dest: set_takeWhileD)
  then have "0 \<le> digits_val ds \<and> digits_val ds < 10 ^ length ds" by (rule digits_val_bounds)
  moreover have "(10::int) ^ length ds \<le> 10 ^ length s"
    using \<open>length ds \<le> length s\<close> by (simp add: power_increasing)
  ultimately have "\<bar>digits_val ds\<bar> < 10 ^ length s" by linarith
  with sg show ?thesis by (simp add: v abs_mult)
qed

text \<open>A negative value has its minus sign among the characters, so one digit fewer.\<close>

lemma strtol_neg_bound:
  assumes "strtol s = Some v" and "v < 0"
  shows "- v < 10 ^ (length s - 1)"
proof -
  define t where "t = dropWhile is_space s"
  obtain sg u where su: "strtol_sign t = (sg, u)" by fastforce
  define ds where "ds = takeWhile is_digit u"
  have v: "v = sg * digits_val ds"
    using assms su by (auto simp: strtol_def t_def [symmetric] ds_def Let_def split: if_splits)
  have "\<forall>c\<in>set ds. is_digit c" by (auto simp: ds_def dest: set_takeWhileD)
  then have dv: "0 \<le> digits_val ds \<and> digits_val ds < 10 ^ length ds" by (rule digits_val_bounds)
  with v assms(2) have "sg \<noteq> 1" by auto
  with su have sg: "sg = -1" and "length t = Suc (length u)"
    by (cases t; auto split: if_splits)+
  moreover have "length t \<le> length s" by (simp add: t_def length_dropWhile_le)
  ultimately have "length ds \<le> length s - 1"
    using length_takeWhile_le [of is_digit u] by (simp add: ds_def)
  then have "(10::int) ^ length ds \<le> 10 ^ (length s - 1)" by (simp add: power_increasing)
  with dv have "digits_val ds < 10 ^ (length s - 1)" by linarith
  then show ?thesis by (simp add: v sg)
qed

lemma stoi_short:
  assumes "length s \<le> 9"
  shows "stoi s \<noteq> Inl Out_of_range"
    and "stoi s = Inr v \<Longrightarrow> \<bar>v\<bar> < 10 ^ length s"
proof -
  have len: "length (c_str s) \<le> length s" by (simp add: c_str_def length_takeWhile_le)
  have bnd: "\<bar>v\<bar> < 10 ^ length s" if "strtol (c_str s) = Some v" for v
    using strtol_bound [OF that] power_increasing [OF len, of "10::int"] by linarith
  have p: "(10::int) ^ length s \<le> 10 ^ 9" by (rule power_increasing [OF assms]) simp
  have "INT_MIN \<le> v \<and> v \<le> INT_MAX" if "strtol (c_str s) = Some v" for v
    using less_le_trans [OF bnd [OF that] p] by (simp add: INT_MIN_def INT_MAX_def abs_less_iff)
  then show "stoi s \<noteq> Inl Out_of_range"
    by (auto simp: stoi_def split: option.splits)
  show "stoi s = Inr v \<Longrightarrow> \<bar>v\<bar> < 10 ^ length s"
    using bnd by (auto simp: stoi_def split: option.splits if_splits)
qed

lemma stoi_neg_bound:
  assumes "stoi s = Inr v" and "v < 0"
  shows "- v < 10 ^ (length s - 1)"
proof -
  have "strtol (c_str s) = Some v"
    using assms(1) by (auto simp: stoi_def split: option.splits if_splits)
  then have "- v < 10 ^ (length (c_str s) - 1)" using assms(2) by (rule strtol_neg_bound)
  also have "(10::int) ^ (length (c_str s) - 1) \<le> 10 ^ (length s - 1)"
    by (intro power_increasing diff_le_mono) (simp_all add: c_str_def length_takeWhile_le)
  finally show ?thesis .
qed

section \<open>The interface of a fixed-width numeric field\<close>

locale fixed_field =
  fixes width :: nat
    and enc :: "int \<Rightarrow> string"
    and dec :: "string \<Rightarrow> int outcome"
    and ok :: "int \<Rightarrow> bool"
  assumes enc_width: "ok i \<Longrightarrow> length (enc i) = width"
    and dec_enc: "ok i \<Longrightarrow> dec (enc i) = Inr i"
begin

lemma enc_inject: "ok i \<Longrightarrow> ok j \<Longrightarrow> enc i = enc j \<longleftrightarrow> i = j"
  by (metis dec_enc sum.inject(2))

lemma take_enc: "ok i \<Longrightarrow> take width (enc i @ r) = enc i"
  by (simp add: enc_width)

lemma drop_enc: "ok i \<Longrightarrow> drop width (enc i @ r) = r"
  by (simp add: enc_width)

lemma dec_take_enc: "ok i \<Longrightarrow> dec (take width (enc i @ r)) = Inr i"
  by (simp only: take_enc dec_enc)

end

definition id_ok :: "int \<Rightarrow> bool" where
  "id_ok i \<longleftrightarrow> 0 \<le> i \<and> i \<le> 999"

definition mti_ok :: "int \<Rightarrow> bool" where
  "mti_ok i \<longleftrightarrow> 0 \<le> i \<and> i \<le> 9999"

lemma setw_field:
  assumes "0 \<le> i" and "i < 10 ^ Suc k" and "k < 9"
  shows "length (setw_setfill0 (Suc k) i) = Suc k" and "stoi (setw_setfill0 (Suc k) i) = Inr i"
proof -
  have "nat i < 10 ^ Suc k" using assms(1,2) by (simp add: nat_less_iff)
  then show "length (setw_setfill0 (Suc k) i) = Suc k"
    using assms(1) length_show_nat [of "nat i" k] by (simp add: length_setw_setfill0)
  have "(10::int) ^ Suc k \<le> 10 ^ 9" using assms(3) by (intro power_increasing) auto
  with assms have "i \<le> INT_MAX" by (simp add: INT_MAX_def)
  then show "stoi (setw_setfill0 (Suc k) i) = Inr i"
    using assms(1) stoi_setw [of i "[]" "Suc k"] by simp
qed

interpretation id_field: fixed_field 3 "setw_setfill0 3" stoi id_ok
proof unfold_locales
  fix i assume "id_ok i"
  then show "length (setw_setfill0 3 i) = 3" "stoi (setw_setfill0 3 i) = Inr i"
    using setw_field [of i 2] by (auto simp: id_ok_def eval_nat_numeral)
qed

interpretation mti_field: fixed_field 4 "setw_setfill0 4" stoi mti_ok
proof unfold_locales
  fix i assume "mti_ok i"
  then show "length (setw_setfill0 4 i) = 4" "stoi (setw_setfill0 4 i) = Inr i"
    using setw_field [of i 3] by (auto simp: mti_ok_def eval_nat_numeral)
qed

end
