(* ===== verification/Node_Message.thy ===== *)
theory Node_Message
  imports Cxx_Text
begin

text \<open>
  The class \<^verbatim>\<open>Message\<close> of the node (\<^verbatim>\<open>node/include/message.h\<close>): building the
  identification message, the first message and the reply to a received message. The abstract
  side is the record \<open>msg\<close> of the five fields with its 32-character layout \<open>encode_msg\<close> and the
  reply as an operation on fields; the lemmas relate the code to it.
\<close>

section \<open>The code\<close>

definition MSG_LEN :: int where
  "MSG_LEN = 32"

text \<open>\<^verbatim>\<open>std::string(message + i, n)\<close>; the callers pass a buffer that holds these characters.\<close>

definition substr :: "string \<Rightarrow> nat \<Rightarrow> nat \<Rightarrow> string" where
  "substr s i n = take n (drop i s)"

text \<open>C++ \<^verbatim>\<open>%\<close>: the remainder has the sign of the dividend.\<close>

definition c_rem :: "int \<Rightarrow> int \<Rightarrow> int" where
  "c_rem a b = sgn a * (\<bar>a\<bar> mod \<bar>b\<bar>)"

definition processMessage :: "int \<Rightarrow> string \<Rightarrow> int \<Rightarrow> string outcome" where
  "processMessage current_node_id message message_len =
     (if message_len \<noteq> MSG_LEN then Inr []
      else
        let src_id = substr message 0 3;
            MTI = substr message 3 4;
            TRACE = substr message 7 6;
            PAN = substr message 13 16;
            dstid = substr message 29 3
        in case stoi dstid of
             Inl e \<Rightarrow> Inl e
           | Inr msg_dst \<Rightarrow>
               if msg_dst \<noteq> current_node_id then Inr []
               else case stoi MTI of
                      Inl e \<Rightarrow> Inl e
                    | Inr m \<Rightarrow>
                        let new_mti = c_rem (m + 10) 10000;
                            mti_str = setw_setfill0 4 new_mti
                        in Inr (dstid @ mti_str @ TRACE @ PAN @ src_id))"

definition buildFirstMessage :: "int \<Rightarrow> int \<Rightarrow> string" where
  "buildFirstMessage src_node_id dst_node_id =
     (let MTI = ''2200''; TRACE = ''123456''; PAN = ''1111111111111111'';
          srcid = setw_setfill0 3 src_node_id;
          dstid = setw_setfill0 3 dst_node_id
      in srcid @ MTI @ TRACE @ PAN @ dstid)"

definition buildIdMessage :: "int \<Rightarrow> string" where
  "buildIdMessage current_node_id = setw_setfill0 3 current_node_id"

section \<open>The message format\<close>

record msg =
  m_src :: int
  m_mti :: int
  m_trace :: string
  m_pan :: string
  m_dst :: int

definition msg_ok :: "msg \<Rightarrow> bool" where
  "msg_ok m \<longleftrightarrow> id_ok (m_src m) \<and> mti_ok (m_mti m) \<and> length (m_trace m) = 6 \<and>
     length (m_pan m) = 16 \<and> id_ok (m_dst m)"

definition encode_msg :: "msg \<Rightarrow> string" where
  "encode_msg m = setw_setfill0 3 (m_src m) @ setw_setfill0 4 (m_mti m) @ m_trace m @ m_pan m @
     setw_setfill0 3 (m_dst m)"

definition reply_msg :: "msg \<Rightarrow> msg" where
  "reply_msg m = m\<lparr>m_src := m_dst m, m_dst := m_src m, m_mti := (m_mti m + 10) mod 10000\<rparr>"

definition first_msg :: "int \<Rightarrow> int \<Rightarrow> msg" where
  "first_msg s d = \<lparr>m_src = s, m_mti = 2200, m_trace = ''123456'', m_pan = ''1111111111111111'',
     m_dst = d\<rparr>"

section \<open>Layout lemmas\<close>

lemma c_rem_nonneg [simp]: "0 \<le> a \<Longrightarrow> 0 < b \<Longrightarrow> c_rem a b = a mod b"
  by (simp add: c_rem_def sgn_if)

lemma msg_okD:
  assumes "msg_ok m"
  shows "length (setw_setfill0 3 (m_src m)) = 3" "length (setw_setfill0 4 (m_mti m)) = 4"
    "length (m_trace m) = 6" "length (m_pan m) = 16" "length (setw_setfill0 3 (m_dst m)) = 3"
  using assms by (auto simp: msg_ok_def id_field.enc_width mti_field.enc_width)

lemma length_encode_msg [frame_simps]: "msg_ok m \<Longrightarrow> length (encode_msg m) = 32"
  by (simp add: encode_msg_def msg_okD)

lemma substr_encode_msg [frame_simps]:
  assumes "msg_ok m"
  shows "substr (encode_msg m @ r) 0 3 = setw_setfill0 3 (m_src m)"
    "substr (encode_msg m @ r) 3 4 = setw_setfill0 4 (m_mti m)"
    "substr (encode_msg m @ r) 7 6 = m_trace m"
    "substr (encode_msg m @ r) 13 16 = m_pan m"
    "substr (encode_msg m @ r) 29 3 = setw_setfill0 3 (m_dst m)"
  using msg_okD [OF assms] by (simp_all add: substr_def encode_msg_def)

lemma msg_ok_reply [frame_simps]: "msg_ok m \<Longrightarrow> msg_ok (reply_msg m)"
  by (auto simp: msg_ok_def reply_msg_def mti_ok_def)

lemma m_dst_first [simp]: "m_dst (first_msg s d) = d"
  by (simp add: first_msg_def)

lemma msg_ok_first [frame_simps]: "id_ok s \<Longrightarrow> id_ok d \<Longrightarrow> msg_ok (first_msg s d)"
  by (simp add: msg_ok_def first_msg_def mti_ok_def)

lemma setw_4_2200: "setw_setfill0 4 2200 = ''2200''"
  by code_simp

lemma buildFirstMessage_encode [frame_simps]:
  "buildFirstMessage s d = encode_msg (first_msg s d)"
  by (simp add: buildFirstMessage_def encode_msg_def first_msg_def setw_4_2200)

lemma encode_msg_inject:
  assumes "msg_ok m" and "msg_ok n" and "encode_msg m = encode_msg n"
  shows "m = n"
proof -
  note f = substr_encode_msg [OF assms(1), of "[]"]
    and g = substr_encode_msg [OF assms(2), of "[]"]
  from f g assms(3)
  have "setw_setfill0 3 (m_src m) = setw_setfill0 3 (m_src n)"
    and "setw_setfill0 4 (m_mti m) = setw_setfill0 4 (m_mti n)"
    and "m_trace m = m_trace n" and "m_pan m = m_pan n"
    and "setw_setfill0 3 (m_dst m) = setw_setfill0 3 (m_dst n)"
    by simp_all
  with assms(1,2) show ?thesis
    by (cases m, cases n) (auto simp: msg_ok_def id_field.enc_inject mti_field.enc_inject)
qed

section \<open>Replies\<close>

lemma processMessage_encode:
  assumes "msg_ok m"
  shows "processMessage me (encode_msg m @ r) 32 =
     Inr (if m_dst m = me then encode_msg (reply_msg m) else [])"
proof -
  have "stoi (setw_setfill0 3 (m_dst m)) = Inr (m_dst m)"
    and "stoi (setw_setfill0 4 (m_mti m)) = Inr (m_mti m)" and "0 \<le> m_mti m + 10"
    using assms by (auto simp: msg_ok_def id_field.dec_enc mti_field.dec_enc mti_ok_def)
  then show ?thesis
    by (auto simp: processMessage_def MSG_LEN_def Let_def substr_encode_msg [OF assms])
      (simp add: encode_msg_def reply_msg_def)
qed

lemma new_mti_width:
  assumes "stoi s = Inr m" and "length s \<le> 4"
  shows "length (setw_setfill0 4 (c_rem (m + 10) 10000)) = 4"
proof (cases "0 \<le> m + 10")
  case True
  have "\<bar>m\<bar> < 10 ^ length s" using stoi_short(2) [of s m] assms by simp
  have "mti_ok ((m + 10) mod 10000)" by (simp add: mti_ok_def)
  then show ?thesis using True mti_field.enc_width by simp
next
  case False
  then have "- m < 10 ^ (length s - 1)" using stoi_neg_bound [OF assms(1)] by simp
  also have "(10::int) ^ (length s - 1) \<le> 10 ^ 3" using assms(2) by (intro power_increasing) auto
  finally have m: "- m < 1000" by simp
  with False have c: "c_rem (m + 10) 10000 = m + 10"
    by (simp add: c_rem_def sgn_if)
  have "length (show_nat (nat (- (m + 10)))) \<le> 3"
    using m length_show_nat [of "nat (- (m + 10))" 2] by (simp add: nat_less_iff eval_nat_numeral)
  then show ?thesis using False by (simp add: length_setw_setfill0 show_int_def c)
qed

lemma processMessage_Inl:
  assumes "processMessage me message n = Inl e"
  shows "e = Invalid_argument"
proof -
  have "stoi (substr message 29 3) \<noteq> Inl Out_of_range" "stoi (substr message 3 4) \<noteq> Inl Out_of_range"
    by (simp_all add: stoi_short(1) substr_def)
  with assms show ?thesis
    by (cases e) (auto simp: processMessage_def Let_def split: sum.splits if_splits)
qed

lemma processMessage_length:
  assumes "processMessage me msg n = Inr r" and "r \<noteq> []" and "32 \<le> length msg"
  shows "length r = 32"
proof -
  obtain m where m: "stoi (substr msg 3 4) = Inr m"
    and r: "r = substr msg 29 3 @ setw_setfill0 4 (c_rem (m + 10) 10000) @ substr msg 7 6 @
      substr msg 13 16 @ substr msg 0 3"
    using assms(1,2) by (auto simp: processMessage_def Let_def split: if_splits sum.splits)
  have "length (setw_setfill0 4 (c_rem (m + 10) 10000)) = 4"
    by (rule new_mti_width [OF m]) (simp add: substr_def)
  then show ?thesis using assms(3) by (simp add: r substr_def)
qed

text \<open>Two nodes that answer each other: after \<open>k\<close> replies the type identifier has grown by
  \<open>10 k\<close> modulo 10000 and the identifiers have been swapped \<open>k\<close> times.\<close>

lemma reply_msg_twice: "reply_msg (reply_msg m) = m\<lparr>m_mti := (m_mti m + 20) mod 10000\<rparr>"
  by (cases m) (simp add: reply_msg_def mod_simps add.commute)

lemma reply_msg_even:
  "mti_ok (m_mti m) \<Longrightarrow>
   (reply_msg ^^ (2 * k)) m = m\<lparr>m_mti := (m_mti m + 20 * int k) mod 10000\<rparr>"
proof (induction k)
  case 0
  then show ?case by (simp add: mti_ok_def)
next
  case (Suc k)
  then show ?case by (simp add: reply_msg_twice mod_simps algebra_simps)
qed

end
