(* ===== verification/Router_Message.thy ===== *)
theory Router_Message
  imports Node_Message
begin

text \<open>
  The class \<^verbatim>\<open>Message\<close> of the router (\<^verbatim>\<open>router/include/message.h\<close>): reading the source
  identifier of the 3-byte identification message and the destination identifier of a 32-byte
  message out of the receive buffer. \<^verbatim>\<open>std::invalid_argument\<close> is caught and becomes
  \<open>-1\<close>; \<^verbatim>\<open>std::out_of_range\<close> is not caught, and the lemmas show that it is never raised on
  a buffer the handlers have terminated.
\<close>

section \<open>The code\<close>

definition ID_MESSAGE_SIZE :: nat where
  "ID_MESSAGE_SIZE = 3"

definition DATA_MESSAGE_SIZE :: nat where
  "DATA_MESSAGE_SIZE = 32"

definition stoi_or_minus1 :: "string \<Rightarrow> int outcome" where
  "stoi_or_minus1 s =
     (case stoi s of
        Inr v \<Rightarrow> Inr v
      | Inl Invalid_argument \<Rightarrow> Inr (-1)
      | Inl Out_of_range \<Rightarrow> Inl Out_of_range)"

definition extract_src_id :: "buffer \<Rightarrow> int \<Rightarrow> int outcome" where
  "extract_src_id msg msg_len =
     (if msg_len < int ID_MESSAGE_SIZE then Inr (-1) else stoi_or_minus1 msg)"

definition extract_dst_id :: "buffer \<Rightarrow> int \<Rightarrow> int outcome" where
  "extract_dst_id msg msg_len =
     (if msg_len < int DATA_MESSAGE_SIZE then Inr (-1) else stoi_or_minus1 (drop 29 msg))"

section \<open>Reading a terminated field\<close>

lemma stoi_terminated: "stoi (s @ NUL # r) = stoi s"
proof -
  have "c_str (s @ NUL # r) = c_str s" by (induction s) (auto simp: c_str_def)
  then show ?thesis by (simp add: stoi_def)
qed

text \<open>The handlers write a terminating zero right behind the field, so three characters are
  converted: there is always a result, and it lies between \<open>-99\<close> and \<open>999\<close>.\<close>

lemma stoi_or_minus1_short:
  assumes "length s = 3"
  obtains v where "stoi_or_minus1 (s @ NUL # r) = Inr v" and "- 100 < v" and "v < 1000"
proof (cases "stoi s")
  case (Inl e)
  with stoi_short(1) [of s] assms have "e = Invalid_argument" by (cases e) auto
  with Inl that [of "-1"] show thesis by (simp add: stoi_or_minus1_def stoi_terminated)
next
  case (Inr v)
  have "\<bar>v\<bar> < 1000" using stoi_short(2) [of s v] Inr assms by simp
  moreover have "- v < 100" if "v < 0" using stoi_neg_bound [OF Inr that] assms by simp
  ultimately show thesis
    using that [of v] Inr by (force simp: stoi_or_minus1_def stoi_terminated)
qed

lemma drop_29_split: "length s = 32 \<Longrightarrow> drop 29 (s @ r) = drop 29 s @ r"
  by simp

lemma extract_src_id_total:
  assumes "length s = 3"
  shows "\<exists>v. extract_src_id (s @ NUL # r) 3 = Inr v \<and> - 100 < v \<and> v < 1000"
  using stoi_or_minus1_short [OF assms, of r]
  by (auto simp: extract_src_id_def ID_MESSAGE_SIZE_def)

lemma extract_dst_id_total:
  assumes "length s = 32"
  shows "\<exists>v. extract_dst_id (s @ NUL # r) 32 = Inr v \<and> - 100 < v \<and> v < 1000"
  using stoi_or_minus1_short [of "drop 29 s" r] assms
  by (auto simp: extract_dst_id_def DATA_MESSAGE_SIZE_def)

text \<open>What the handlers make of three characters.\<close>

definition parse_id :: "string \<Rightarrow> int" where
  "parse_id s = (case stoi s of Inr v \<Rightarrow> v | Inl _ \<Rightarrow> -1)"

lemma stoi_or_minus1_parse: "length s = 3 \<Longrightarrow> stoi_or_minus1 (s @ NUL # r) = Inr (parse_id s)"
  using stoi_short(1) [of s]
  by (auto simp: stoi_or_minus1_def parse_id_def stoi_terminated split: sum.splits cxx_exn.splits)

lemma extract_src_id_parse [frame_simps]:
  "length s = 3 \<Longrightarrow> extract_src_id (s @ NUL # r) 3 = Inr (parse_id s)"
  by (simp add: extract_src_id_def ID_MESSAGE_SIZE_def stoi_or_minus1_parse)

lemma extract_dst_id_parse [frame_simps]:
  "length s = 32 \<Longrightarrow> extract_dst_id (s @ NUL # r) 32 = Inr (parse_id (drop 29 s))"
  using stoi_or_minus1_parse [of "drop 29 s" r]
  by (simp add: extract_dst_id_def DATA_MESSAGE_SIZE_def)

lemma parse_id_buildIdMessage [frame_simps]: "id_ok i \<Longrightarrow> parse_id (buildIdMessage i) = i"
  by (simp add: parse_id_def buildIdMessage_def id_field.dec_enc)

lemma parse_id_encode [frame_simps]:
  assumes "msg_ok m" shows "parse_id (drop 29 (encode_msg m)) = m_dst m"
proof -
  have "drop 29 (encode_msg m) = setw_setfill0 3 (m_dst m)"
    using msg_okD [OF assms] by (simp add: encode_msg_def)
  with assms show ?thesis by (simp add: parse_id_def id_field.dec_enc msg_ok_def)
qed

lemma extract_src_id_ident [frame_simps]:
  "id_ok i \<Longrightarrow> extract_src_id (buildIdMessage i @ NUL # r) 3 = Inr i"
  by (simp add: buildIdMessage_def extract_src_id_parse id_field.enc_width parse_id_def
      id_field.dec_enc)

lemma extract_dst_id_encode [frame_simps]:
  "msg_ok m \<Longrightarrow> extract_dst_id (encode_msg m @ NUL # r) 32 = Inr (m_dst m)"
  by (simp add: extract_dst_id_parse length_encode_msg parse_id_encode)

end
