(* ===== verification/Message_Properties.thy ===== *)
theory Message_Properties
  imports Router_Message
begin

text \<open>
  The properties of the two message classes: replies, the agreement of what the node writes with
  what the router reads, and the error paths.
\<close>

section \<open>Replies\<close>

text \<open>C24: A node answers a well-formed 32-character message that is addressed to it with the
  same message with source and destination exchanged and the type identifier increased by 10
  modulo 10000, whatever follows the message in the buffer; it answers a message for another node
  with the empty string.\<close>

theorem processMessage_reply:
  assumes "msg_ok m"
  shows "processMessage me (encode_msg m @ rest) 32 =
    Inr (if m_dst m = me then encode_msg (reply_msg m) else [])"
  using assms by (rule processMessage_encode)

theorem processMessage_reply_witness:
  "processMessage 3 ''00522101234561111111111111111003'' 32 =
     Inr ''00322201234561111111111111111005''"
proof -
  let ?m = "\<lparr>m_src = 5, m_mti = 2210, m_trace = ''123456'', m_pan = ''1111111111111111'', m_dst = 3\<rparr>"
  have "msg_ok ?m" by (simp add: msg_ok_def id_ok_def mti_ok_def)
  moreover have "encode_msg ?m = ''00522101234561111111111111111003''" by code_simp
  moreover have "encode_msg (reply_msg ?m) = ''00322201234561111111111111111005''" by code_simp
  ultimately show ?thesis using processMessage_reply [of ?m 3 "[]"] by simp
qed

text \<open>Whatever 32 bytes a node receives, a reply that is not empty has exactly 32 characters,
  also when the type identifier of the message is negative or contains blanks.\<close>

lemma processMessage_reply_length:
  assumes "processMessage me message n = Inr reply" and "reply \<noteq> []" and "32 \<le> length message"
  shows "length reply = 32"
  using assms by (rule processMessage_length)

text \<open>\<^verbatim>\<open>processMessage\<close> never raises \<^verbatim>\<open>std::out_of_range\<close>: the only exception that leaves it
  is \<^verbatim>\<open>std::invalid_argument\<close>, and it raises that one on a 32-byte message exactly when the
  destination is no number, or the destination is this node and the type identifier is no number.\<close>

lemma processMessage_exceptions:
  "processMessage me message 32 = Inl e \<longleftrightarrow>
     e = Invalid_argument \<and>
     (stoi (substr message 29 3) = Inl Invalid_argument \<or>
      stoi (substr message 29 3) = Inr me \<and> stoi (substr message 3 4) = Inl Invalid_argument)"
  using processMessage_Inl [of me message 32 e]
  by (auto simp: processMessage_def MSG_LEN_def Let_def split: sum.splits if_splits)

text \<open>What the node that a message is addressed to answers.\<close>

definition answer :: "string \<Rightarrow> string" where
  "answer s =
     (case stoi (substr s 29 3) of
        Inl _ \<Rightarrow> []
      | Inr d \<Rightarrow> (case processMessage d s 32 of Inl _ \<Rightarrow> [] | Inr reply \<Rightarrow> reply))"

lemma answer_encode:
  assumes "msg_ok m"
  shows "answer (encode_msg m) = encode_msg (reply_msg m)"
proof -
  have "stoi (substr (encode_msg m) 29 3) = Inr (m_dst m)"
    using substr_encode_msg [OF assms, of "[]"] assms by (simp add: msg_ok_def id_field.dec_enc)
  then show ?thesis
    using processMessage_encode [OF assms, of "m_dst m" "[]"] by (simp add: answer_def)
qed

text \<open>Two nodes that keep answering each other repeat themselves: after 1000 answers the
  message is the first one again.\<close>

lemma answers_cycle:
  assumes "msg_ok m"
  shows "(answer ^^ 1000) (encode_msg m) = encode_msg m"
proof -
  have "msg_ok ((reply_msg ^^ k) m) \<and> (answer ^^ k) (encode_msg m) = encode_msg ((reply_msg ^^ k) m)" for k
    by (induction k) (simp_all add: assms msg_ok_reply answer_encode)
  moreover have "(reply_msg ^^ 1000) m = m"
    using assms reply_msg_even [of m 500] by (simp add: msg_ok_def mti_ok_def)
  ultimately show ?thesis by metis
qed

section \<open>What the node writes and the router reads\<close>

text \<open>For every identifier from 0 to 999 the identification message has three characters and
  the router reads the same identifier from it.\<close>

lemma id_message_roundtrip:
  assumes "0 \<le> i" and "i \<le> 999"
  shows "length (buildIdMessage i) = 3 \<and> extract_src_id (buildIdMessage i @ NUL # rest) 3 = Inr i"
  using assms extract_src_id_ident [of i rest]
  by (simp_all add: buildIdMessage_def id_field.enc_width id_ok_def)

text \<open>C29: For identifiers from 0 to 999 the first message has 32 characters and the router reads
  its destination from it; the node it is addressed to answers it and the router routes the answer
  back to the first node.\<close>

theorem first_message_roundtrip:
  assumes "0 \<le> a" and "a \<le> 999" and "0 \<le> b" and "b \<le> 999"
  shows "length (buildFirstMessage a b) = 32 \<and>
    extract_dst_id (buildFirstMessage a b @ NUL # rest) 32 = Inr b \<and>
    (\<exists>reply. processMessage b (buildFirstMessage a b) 32 = Inr reply \<and> length reply = 32 \<and>
       extract_dst_id (reply @ NUL # rest) 32 = Inr a)"
proof -
  have ok: "msg_ok (first_msg a b)" using assms by (simp add: msg_ok_first id_ok_def)
  have "processMessage b (buildFirstMessage a b) 32 = Inr (encode_msg (reply_msg (first_msg a b)))"
    using processMessage_encode [OF ok, of b "[]"] by (simp add: buildFirstMessage_encode first_msg_def)
  moreover have "m_dst (reply_msg (first_msg a b)) = a" by (simp add: reply_msg_def first_msg_def)
  ultimately show ?thesis
    using ok msg_ok_reply [OF ok]
    by (auto simp: buildFirstMessage_encode length_encode_msg extract_dst_id_encode)
qed

theorem first_message_roundtrip_witness:
  "extract_dst_id (buildFirstMessage 3 5 @ NUL # []) 32 = Inr 5 \<and>
   buildFirstMessage 3 5 = ''00322001234561111111111111111005''"
proof -
  have "buildFirstMessage 3 5 = ''00322001234561111111111111111005''" by code_simp
  then show ?thesis using first_message_roundtrip [of 3 5 "[]"] by simp
qed

text \<open>On a buffer that the handlers have terminated with a zero byte after three and after 32
  bytes, reading an identifier never raises an exception, and the result lies between \<open>-99\<close> and
  \<open>999\<close>.\<close>

lemma extract_ids_total:
  assumes "length a = 3" and "length b = 32"
  shows "(\<exists>v. extract_src_id (a @ NUL # r) 3 = Inr v \<and> - 100 < v \<and> v < 1000) \<and>
    (\<exists>v. extract_dst_id (b @ NUL # r) 32 = Inr v \<and> - 100 < v \<and> v < 1000)"
  using extract_src_id_total [OF assms(1)] extract_dst_id_total [OF assms(2)] by blast

section \<open>The repository's tests\<close>

text \<open>The five tests of \<^verbatim>\<open>tests/node_tests.cpp\<close>, each an \<^verbatim>\<open>EXPECT_EQ\<close>, and that they pass.\<close>

definition Test_Initial_Message :: bool where
  "Test_Initial_Message \<longleftrightarrow> buildFirstMessage 3 5 = ''00322001234561111111111111111005''"

definition Test_Process_Message1 :: bool where
  "Test_Process_Message1 \<longleftrightarrow>
     processMessage 3 ''00522101234561111111111111111003'' 32 = Inr ''00322201234561111111111111111005''"

definition Test_Process_Message2 :: bool where
  "Test_Process_Message2 \<longleftrightarrow> processMessage 3 ''00322101234561111111111111111005'' 32 = Inr []"

definition Test_Process_Message3 :: bool where
  "Test_Process_Message3 \<longleftrightarrow> processMessage 3 ''0052210123456111111111111111003'' 31 = Inr []"

definition Test_Id_Message :: bool where
  "Test_Id_Message \<longleftrightarrow> buildIdMessage 3 = ''003''"

lemma node_tests:
  "Test_Initial_Message" "Test_Process_Message1" "Test_Process_Message2" "Test_Process_Message3" "Test_Id_Message"
  by code_simp+

end
