(* ===== verification/Sessions_Table.thy ===== *)
theory Sessions_Table
  imports Prelude
begin

text \<open>
  The classes \<^verbatim>\<open>Session\<close> (\<^verbatim>\<open>router/include/session.h\<close>) and \<^verbatim>\<open>Sessions\<close>
  (\<^verbatim>\<open>router/src/sessions.cpp\<close>). The two hash maps hold shared pointers to the same
  \<^verbatim>\<open>Session\<close> objects and \<^verbatim>\<open>set_id\<close> writes through one of them, so the objects live in
  an explicit store and the maps hold their addresses. Locking \<^verbatim>\<open>sessions_mutex_\<close> while the
  same thread owns it is an error value. The abstract side is a table without a store: which
  identifier each connected socket has, and which socket each identifier is routed to; every
  operation refines its counterpart there.
\<close>

section \<open>Session\<close>

type_synonym ref = nat

definition NONE :: int where
  "NONE = -1"

record session =
  s_socket :: sock
  s_id :: int
  s_mutex :: ref

definition Session :: "sock \<Rightarrow> ref \<Rightarrow> session" where
  "Session s m = \<lparr>s_socket = s, s_id = NONE, s_mutex = m\<rparr>"

definition get_id :: "session \<Rightarrow> int" where
  "get_id x = s_id x"

definition get_socket :: "session \<Rightarrow> sock" where
  "get_socket x = s_socket x"

definition set_id :: "int \<Rightarrow> session \<Rightarrow> session" where
  "set_id i x = x\<lparr>s_id := i\<rparr>"

definition get_mutex :: "session \<Rightarrow> ref" where
  "get_mutex x = s_mutex x"

section \<open>Sessions\<close>

definition MAX_CLIENTS_COUNT :: int where
  "MAX_CLIENTS_COUNT = 999"

record sessions =
  store :: "ref \<rightharpoonup> session"
  next_ref :: ref
  sessions_by_socket :: "sock \<rightharpoonup> ref"
  sessions_by_id :: "int \<rightharpoonup> ref"
  accepted_clients :: "sock list"

datatype lock_error = Relock_sessions_mutex

text \<open>The static members at program start.\<close>

definition sessions0 :: sessions where
  "sessions0 = \<lparr>store = Map.empty, next_ref = 0, sessions_by_socket = Map.empty,
     sessions_by_id = Map.empty, accepted_clients = []\<rparr>"

text \<open>\<^verbatim>\<open>std::unique_lock\<close> on \<^verbatim>\<open>sessions_mutex_\<close>, which is not recursive; \<open>held\<close> says
  that the calling thread owns it already.\<close>

definition unique_lock :: "bool \<Rightarrow> 'a \<Rightarrow> lock_error + 'a" where
  "unique_lock held body = (if held then Inl Relock_sessions_mutex else Inr body)"

text \<open>\<^verbatim>\<open>make_shared<Session>\<close>: a new object, with a new mutex, at an unused address.\<close>

definition make_session :: "sock \<Rightarrow> sessions \<Rightarrow> ref \<times> sessions" where
  "make_session s st =
     (let r = next_ref st in (r, st\<lparr>store := (store st)(r \<mapsto> Session s r), next_ref := Suc r\<rparr>))"

text \<open>\<^verbatim>\<open>reserve\<close> sets aside memory for the vector and changes none of its elements.\<close>

definition init_sessions :: "int \<Rightarrow> sessions \<Rightarrow> sessions" where
  "init_sessions max_clients_count st = st"

definition erase_tables :: "sock \<Rightarrow> sessions \<Rightarrow> sessions" where
  "erase_tables socket st =
     (case sessions_by_socket st socket of
        None \<Rightarrow> st
      | Some r \<Rightarrow>
          let st1 = st\<lparr>sessions_by_socket := (sessions_by_socket st)(socket := None)\<rparr>;
              id = (case store st r of None \<Rightarrow> NONE | Some x \<Rightarrow> get_id x)
          in if id \<noteq> NONE
             then st1\<lparr>sessions_by_id := (sessions_by_id st1)(id := None)\<rparr>
             else st1)"

definition remove_locked :: "sock \<Rightarrow> sessions \<Rightarrow> sessions" where
  "remove_locked socket st =
     (let st1 = erase_tables socket st
      in st1\<lparr>accepted_clients := remove1 socket (accepted_clients st1)\<rparr>)"

definition removeSession :: "bool \<Rightarrow> sock \<Rightarrow> sessions \<Rightarrow> lock_error + sessions" where
  "removeSession held socket st = unique_lock held (remove_locked socket st)"

definition accept_client :: "sock \<Rightarrow> sessions \<Rightarrow> lock_error + sessions" where
  "accept_client client_socket st =
     (let st1 = (if client_socket \<notin> set (accepted_clients st)
                 then st\<lparr>accepted_clients := accepted_clients st @ [client_socket]\<rparr> else st);
          locked = (if sessions_by_socket st1 client_socket \<noteq> None
                    then removeSession True client_socket st1 else Inr st1)
      in case locked of
           Inl e \<Rightarrow> Inl e
         | Inr st2 \<Rightarrow>
             (case make_session client_socket st2 of (r, st3) \<Rightarrow>
                Inr (st3\<lparr>sessions_by_socket := (sessions_by_socket st3)(client_socket \<mapsto> r)\<rparr>)))"

definition get_accpeted_sockets :: "sessions \<Rightarrow> sock list" where
  "get_accpeted_sockets st = accepted_clients st"

definition add_node :: "sock \<Rightarrow> int \<Rightarrow> sessions \<Rightarrow> sessions" where
  "add_node client_socket node_id st =
     (case sessions_by_socket st client_socket of
        None \<Rightarrow> st
      | Some r \<Rightarrow>
          if node_id \<ge> MAX_CLIENTS_COUNT then st
          else st\<lparr>store := (store st)(r := map_option (set_id node_id) (store st r)),
                  sessions_by_id := (sessions_by_id st)(node_id \<mapsto> r)\<rparr>)"

definition find_session_by_socket :: "sock \<Rightarrow> sessions \<Rightarrow> ref option" where
  "find_session_by_socket client_socket st = sessions_by_socket st client_socket"

definition find_session_by_id :: "int \<Rightarrow> sessions \<Rightarrow> ref option" where
  "find_session_by_id node_id st = sessions_by_id st node_id"

text \<open>Reading a session object through the pointer.\<close>

definition session_id :: "sessions \<Rightarrow> ref \<Rightarrow> int" where
  "session_id st r = (case store st r of None \<Rightarrow> NONE | Some x \<Rightarrow> get_id x)"

definition session_socket :: "sessions \<Rightarrow> ref \<Rightarrow> sock option" where
  "session_socket st r = map_option get_socket (store st r)"

lemmas session_defs = Session_def get_id_def get_socket_def set_id_def get_mutex_def
lemmas sessions_defs = removeSession_def remove_locked_def accept_client_def add_node_def erase_tables_def
  make_session_def unique_lock_def Let_def find_session_by_socket_def find_session_by_id_def

section \<open>Invariant\<close>

text \<open>
  Every object is at an address below \<open>next_ref\<close> and carries its address as mutex; the socket
  map leads to the object of that socket; an entry of the identifier map other than the one for
  \<open>NONE\<close> leads to an object that carries the identifier and is still connected; identifiers are
  below the limit; the vector lists exactly the connected sockets, each once.
\<close>

definition sessions_inv :: "sessions \<Rightarrow> bool" where
  "sessions_inv st \<longleftrightarrow>
     (\<forall>r x. store st r = Some x \<longrightarrow> r < next_ref st \<and> s_mutex x = r) \<and>
     (\<forall>s r. sessions_by_socket st s = Some r \<longrightarrow> (\<exists>x. store st r = Some x \<and> s_socket x = s)) \<and>
     (\<forall>i r. sessions_by_id st i = Some r \<longrightarrow>
        (\<exists>x. store st r = Some x \<and>
           (i \<noteq> NONE \<longrightarrow> s_id x = i \<and> sessions_by_socket st (s_socket x) = Some r)) \<and>
        i < MAX_CLIENTS_COUNT) \<and>
     distinct (accepted_clients st) \<and> set (accepted_clients st) = dom (sessions_by_socket st)"

lemma sessions_inv0 [intro]: "sessions_inv sessions0"
  by (simp add: sessions_inv_def sessions0_def)

lemma sessions_invD:
  assumes "sessions_inv st"
  shows sessions_inv_store: "store st r = Some x \<Longrightarrow> r < next_ref st \<and> s_mutex x = r"
    and sessions_inv_socket:
      "sessions_by_socket st s = Some r \<Longrightarrow> \<exists>x. store st r = Some x \<and> s_socket x = s"
    and sessions_inv_id: "sessions_by_id st i = Some r \<Longrightarrow> i \<noteq> NONE \<Longrightarrow>
      \<exists>x. store st r = Some x \<and> s_id x = i \<and> sessions_by_socket st (s_socket x) = Some r"
    and sessions_inv_id_store: "sessions_by_id st i = Some r \<Longrightarrow> \<exists>x. store st r = Some x"
    and sessions_inv_limit: "sessions_by_id st i = Some r \<Longrightarrow> i < MAX_CLIENTS_COUNT"
    and sessions_inv_accepted: "set (accepted_clients st) = dom (sessions_by_socket st)"
    and sessions_inv_distinct: "distinct (accepted_clients st)"
  using assms unfolding sessions_inv_def by blast+

lemma sessions_inv_inj:
  "sessions_inv st \<Longrightarrow> sessions_by_socket st s = Some r \<Longrightarrow> sessions_by_socket st t = Some r \<Longrightarrow>
   s = t"
  by (metis sessions_inv_socket option.inject)

lemma sessions_inv_fresh:
  assumes "sessions_inv st"
  shows "store st (next_ref st) = None" "sessions_by_socket st s \<noteq> Some (next_ref st)"
    "sessions_by_id st i \<noteq> Some (next_ref st)"
proof -
  show f: "store st (next_ref st) = None"
    using sessions_inv_store [OF assms] by (cases "store st (next_ref st)") fastforce+
  show "sessions_by_socket st s \<noteq> Some (next_ref st)"
    using sessions_inv_socket [OF assms] f by fastforce
  show "sessions_by_id st i \<noteq> Some (next_ref st)"
    using sessions_inv_id_store [OF assms] f by fastforce
qed

section \<open>Every operation keeps the invariant\<close>

lemma accept_client_fresh:
  assumes "sessions_by_socket st s = None"
  shows "accept_client s st = Inr (st\<lparr>
     store := (store st)(next_ref st \<mapsto> Session s (next_ref st)),
     next_ref := Suc (next_ref st),
     sessions_by_socket := (sessions_by_socket st)(s \<mapsto> next_ref st),
     accepted_clients := (if s \<notin> set (accepted_clients st) then accepted_clients st @ [s]
       else accepted_clients st)\<rparr>)"
  using assms by (simp add: sessions_defs)

lemma accept_client_relock:
  "sessions_by_socket st s \<noteq> None \<Longrightarrow> accept_client s st = Inl Relock_sessions_mutex"
  by (simp add: sessions_defs)

lemma accept_client_inv:
  assumes inv: "sessions_inv st" and acc: "accept_client s st = Inr st'"
  shows "sessions_inv st'"
proof -
  have new: "sessions_by_socket st s = None"
    using acc accept_client_relock by (cases "sessions_by_socket st s") auto
  note fresh = sessions_inv_fresh [OF inv]
  have "s \<notin> set (accepted_clients st)"
    using sessions_inv_accepted [OF inv] new by auto
  then have st': "st' = st\<lparr>store := (store st)(next_ref st \<mapsto> Session s (next_ref st)),
      next_ref := Suc (next_ref st),
      sessions_by_socket := (sessions_by_socket st)(s \<mapsto> next_ref st),
      accepted_clients := accepted_clients st @ [s]\<rparr>"
    using acc accept_client_fresh [OF new] by simp
  have "\<exists>x. ((store st)(next_ref st \<mapsto> Session s (next_ref st))) r = Some x \<and>
      (i \<noteq> NONE \<longrightarrow> s_id x = i \<and>
         ((sessions_by_socket st)(s \<mapsto> next_ref st)) (s_socket x) = Some r)"
    if ir: "sessions_by_id st i = Some r" for i r
  proof -
    obtain x where "store st r = Some x"
        "i \<noteq> NONE \<longrightarrow> s_id x = i \<and> sessions_by_socket st (s_socket x) = Some r"
      using inv ir unfolding sessions_inv_def by blast
    with fresh ir new show ?thesis by (intro exI [of _ x]) auto
  qed
  with inv show ?thesis
    using fresh \<open>s \<notin> set (accepted_clients st)\<close>
    by (simp add: sessions_inv_def st' session_defs) (metis less_Suc_eq option.distinct(1))
qed

lemma add_node_inv:
  assumes inv: "sessions_inv st"
    and unset: "\<And>r. sessions_by_socket st s = Some r \<Longrightarrow> session_id st r = NONE"
  shows "sessions_inv (add_node s i st)"
proof (cases "sessions_by_socket st s")
  case None
  with inv show ?thesis by (simp add: add_node_def)
next
  case (Some r)
  obtain x where x: "store st r = Some x" "s_socket x = s"
    using sessions_inv_socket [OF inv Some] by blast
  have xid: "s_id x = NONE" using unset [OF Some] x by (simp add: session_id_def session_defs)
  show ?thesis
  proof (cases "i \<ge> MAX_CLIENTS_COUNT")
    case True
    with inv Some show ?thesis by (simp add: add_node_def)
  next
    case False
    have other: "r' \<noteq> r" if "sessions_by_id st j = Some r'" "j \<noteq> NONE" for j r'
      using sessions_inv_id [OF inv that] x xid that by auto
    have eq: "add_node s i st = st\<lparr>store := (store st)(r \<mapsto> x\<lparr>s_id := i\<rparr>),
        sessions_by_id := (sessions_by_id st)(i \<mapsto> r)\<rparr>"
      using Some False x by (simp add: add_node_def session_defs)
    show ?thesis
      unfolding eq sessions_inv_def
    proof (intro conjI allI impI, goal_cases)
      case (1 r' x') then show ?case
        using sessions_inv_store [OF inv] x by (auto split: if_splits)
    next
      case (2 r' x') then show ?case
        using sessions_inv_store [OF inv] x by (auto split: if_splits)
    next
      case (3 s' r') then show ?case
        using sessions_inv_socket [OF inv] x by (fastforce split: if_splits)
    next
      case (4 j r') then show ?case
        using sessions_inv_id [OF inv, of j r'] sessions_inv_id_store [OF inv, of j r'] other [of j r']
          x Some by (auto split: if_splits)
    next
      case (5 j r') then show ?case
        using sessions_inv_limit [OF inv, of j r'] False by (auto split: if_splits)
    qed (use sessions_inv_accepted [OF inv] sessions_inv_distinct [OF inv] in simp_all)
  qed
qed

lemma removeSession_free: "removeSession False s st = Inr (remove_locked s st)"
  by (simp add: removeSession_def unique_lock_def)

lemma remove_locked_fields [sess_simps]:
  "store (remove_locked s st) = store st"
  "next_ref (remove_locked s st) = next_ref st"
  "sessions_by_socket (remove_locked s st) = (sessions_by_socket st)(s := None)"
  "accepted_clients (remove_locked s st) = remove1 s (accepted_clients st)"
  by (auto simp: remove_locked_def erase_tables_def Let_def split: option.splits)

lemma remove_locked_by_id:
  "sessions_by_id (remove_locked s st) =
     (case sessions_by_socket st s of
        None \<Rightarrow> sessions_by_id st
      | Some r \<Rightarrow> if session_id st r = NONE then sessions_by_id st
                  else (sessions_by_id st)(session_id st r := None))"
  by (auto simp: remove_locked_def erase_tables_def session_id_def Let_def split: option.splits)

lemma remove_locked_inv:
  assumes inv: "sessions_inv st"
  shows "sessions_inv (remove_locked s st)"
proof -
  have keep: "sessions_by_id st i = Some r" if "sessions_by_id (remove_locked s st) i = Some r" for i r
    using that by (auto simp: remove_locked_by_id split: option.splits if_splits)
  have conn: "s_socket x \<noteq> s"
    if id: "sessions_by_id (remove_locked s st) i = Some r" "i \<noteq> NONE" "store st r = Some x" for i r x
  proof
    assume "s_socket x = s"
    with sessions_inv_id [OF inv keep [OF id(1)] id(2)] id(3)
    have "sessions_by_socket st s = Some r" and "session_id st r = i"
      by (auto simp: session_id_def session_defs)
    with id(1,2) show False by (simp add: remove_locked_by_id)
  qed
  have "\<exists>x. store st r = Some x \<and>
      (i \<noteq> NONE \<longrightarrow> s_id x = i \<and> ((sessions_by_socket st)(s := None)) (s_socket x) = Some r)"
    if "sessions_by_id (remove_locked s st) i = Some r" for i r
    using sessions_inv_id [OF inv keep [OF that]] sessions_inv_id_store [OF inv keep [OF that]]
      conn [OF that] by auto
  moreover have "i < MAX_CLIENTS_COUNT" if "sessions_by_id (remove_locked s st) i = Some r" for i r
    using sessions_inv_limit [OF inv keep [OF that]] .
  ultimately show ?thesis
    using inv by (auto simp: sessions_inv_def remove_locked_fields)
qed

section \<open>The table without a store\<close>

record table =
  conns :: "sock \<rightharpoonup> int"
  routes :: "int \<rightharpoonup> sock"

definition table_of :: "sessions \<Rightarrow> table" where
  "table_of st = \<lparr>
     conns = (\<lambda>s. map_option s_id (Option.bind (sessions_by_socket st s) (store st))),
     routes = (\<lambda>i. map_option s_socket (Option.bind (sessions_by_id st i) (store st)))\<rparr>"

definition tbl_accept :: "sock \<Rightarrow> table \<Rightarrow> table" where
  "tbl_accept s t = t\<lparr>conns := (conns t)(s \<mapsto> NONE)\<rparr>"

definition tbl_add :: "sock \<Rightarrow> int \<Rightarrow> table \<Rightarrow> table" where
  "tbl_add s i t =
     (if s \<in> dom (conns t) \<and> i < MAX_CLIENTS_COUNT
      then t\<lparr>conns := (conns t)(s \<mapsto> i), routes := (routes t)(i \<mapsto> s)\<rparr> else t)"

definition tbl_remove :: "sock \<Rightarrow> table \<Rightarrow> table" where
  "tbl_remove s t =
     (case conns t s of
        None \<Rightarrow> t
      | Some i \<Rightarrow> t\<lparr>conns := (conns t)(s := None),
                    routes := (if i = NONE then routes t else (routes t)(i := None))\<rparr>)"

lemma table_eqI: "conns t = conns u \<Longrightarrow> routes t = routes u \<Longrightarrow> t = (u :: table)"
  by (cases t, cases u) simp

lemma conns_table_of [sess_simps]:
  "conns (table_of st) s = map_option s_id (Option.bind (sessions_by_socket st s) (store st))"
  by (simp add: table_of_def)

lemma routes_table_of [sess_simps]:
  "routes (table_of st) i = map_option s_socket (Option.bind (sessions_by_id st i) (store st))"
  by (simp add: table_of_def)

lemma conns_None_iff:
  assumes "sessions_inv st"
  shows "conns (table_of st) s = None \<longleftrightarrow> sessions_by_socket st s = None"
  using sessions_inv_socket [OF assms, of s]
  by (cases "sessions_by_socket st s") (auto simp: conns_table_of)

lemma conns_session_id:
  assumes "sessions_inv st" and "sessions_by_socket st s = Some r"
  shows "conns (table_of st) s = Some (session_id st r)"
  using sessions_inv_socket [OF assms] assms(2)
  by (auto simp: conns_table_of session_id_def get_id_def)

lemma accept_client_table:
  assumes inv: "sessions_inv st" and acc: "accept_client s st = Inr st'"
  shows "table_of st' = tbl_accept s (table_of st)"
proof -
  have new: "sessions_by_socket st s = None"
    using acc accept_client_relock by (cases "sessions_by_socket st s") auto
  note st' = acc [unfolded accept_client_fresh [OF new], simplified, symmetric]
  note fresh = sessions_inv_fresh [OF inv]
  show ?thesis
  proof (rule table_eqI; rule ext)
    fix t show "conns (table_of st') t = conns (tbl_accept s (table_of st)) t"
      using fresh(2) [of t]
      by (cases "sessions_by_socket st t") (auto simp: st' tbl_accept_def table_of_def session_defs)
  next
    fix i show "routes (table_of st') i = routes (tbl_accept s (table_of st)) i"
      using fresh(3) [of i]
      by (cases "sessions_by_id st i") (auto simp: st' tbl_accept_def table_of_def)
  qed
qed

lemma add_node_table:
  assumes inv: "sessions_inv st"
  shows "table_of (add_node s i st) = tbl_add s i (table_of st)"
proof (cases "sessions_by_socket st s")
  case None
  then have "conns (table_of st) s = None" by (simp add: conns_None_iff [OF inv])
  with None show ?thesis by (simp add: add_node_def tbl_add_def domIff)
next
  case (Some r)
  obtain x where x: "store st r = Some x" "s_socket x = s"
    using sessions_inv_socket [OF inv Some] by blast
  have dom: "s \<in> dom (conns (table_of st))" using Some x by (simp add: domIff sess_simps)
  show ?thesis
  proof (cases "i < MAX_CLIENTS_COUNT")
    case False
    with Some show ?thesis by (simp add: add_node_def tbl_add_def)
  next
    case True
    show ?thesis
    proof (rule table_eqI; rule ext)
      fix t show "conns (table_of (add_node s i st)) t = conns (tbl_add s i (table_of st)) t"
        using Some True x dom sessions_inv_inj [OF inv Some, of t]
        by (cases "sessions_by_socket st t")
          (auto simp: add_node_def tbl_add_def table_of_def session_defs)
    next
      fix j show "routes (table_of (add_node s i st)) j = routes (tbl_add s i (table_of st)) j"
        using Some True x dom
        by (cases "sessions_by_id st j")
          (auto simp: add_node_def tbl_add_def table_of_def session_defs)
    qed
  qed
qed

lemma remove_locked_table:
  assumes inv: "sessions_inv st"
  shows "table_of (remove_locked s st) = tbl_remove s (table_of st)"
proof (cases "sessions_by_socket st s")
  case None
  then have "conns (table_of st) s = None" by (simp add: conns_None_iff [OF inv])
  with None show ?thesis
    by (auto intro!: table_eqI ext simp: tbl_remove_def sess_simps remove_locked_by_id)
next
  case (Some r)
  then show ?thesis
    using conns_session_id [OF inv Some]
    by (auto intro!: table_eqI ext simp: tbl_remove_def sess_simps remove_locked_by_id)
qed

section \<open>The interface the router relies on\<close>

text \<open>
  What the router's handlers need of the session tables, over any state type: how the two lookups
  change under the three updates. The lemmas are proved from these laws alone.
\<close>

locale routing =
  fixes inv :: "'s \<Rightarrow> bool"
    and conn :: "'s \<Rightarrow> sock \<Rightarrow> int option"
    and route :: "'s \<Rightarrow> int \<Rightarrow> sock option"
    and accept :: "sock \<Rightarrow> 's \<Rightarrow> lock_error + 's"
    and add :: "sock \<Rightarrow> int \<Rightarrow> 's \<Rightarrow> 's"
    and remove :: "sock \<Rightarrow> 's \<Rightarrow> 's"
  assumes accept_iff: "inv st \<Longrightarrow> (\<exists>st'. accept s st = Inr st') \<longleftrightarrow> conn st s = None"
    and conn_accept: "inv st \<Longrightarrow> accept s st = Inr st' \<Longrightarrow> conn st' = (conn st)(s \<mapsto> NONE)"
    and route_accept: "inv st \<Longrightarrow> accept s st = Inr st' \<Longrightarrow> route st' = route st"
    and inv_accept: "inv st \<Longrightarrow> accept s st = Inr st' \<Longrightarrow> inv st'"
    and conn_add: "inv st \<Longrightarrow> conn (add s i st) =
      (if conn st s \<noteq> None \<and> i < MAX_CLIENTS_COUNT then (conn st)(s \<mapsto> i) else conn st)"
    and route_add: "inv st \<Longrightarrow> route (add s i st) =
      (if conn st s \<noteq> None \<and> i < MAX_CLIENTS_COUNT then (route st)(i \<mapsto> s) else route st)"
    and inv_add: "inv st \<Longrightarrow> conn st s \<in> {None, Some NONE} \<Longrightarrow> inv (add s i st)"
    and conn_remove: "inv st \<Longrightarrow> conn (remove s st) = (conn st)(s := None)"
    and route_remove: "inv st \<Longrightarrow> route (remove s st) =
      (case conn st s of None \<Rightarrow> route st
       | Some i \<Rightarrow> if i = NONE then route st else (route st)(i := None))"
    and inv_remove: "inv st \<Longrightarrow> inv (remove s st)"
    and route_conn: "inv st \<Longrightarrow> route st i = Some s \<Longrightarrow> i \<noteq> NONE \<Longrightarrow> conn st s = Some i"
begin

lemma registered_route:
  "inv st \<Longrightarrow> conn st s \<noteq> None \<Longrightarrow> i < MAX_CLIENTS_COUNT \<Longrightarrow> route (add s i st) i = Some s"
  by (simp add: route_add)

lemma route_remove_other:
  "inv st \<Longrightarrow> conn st t \<noteq> Some i \<Longrightarrow> route (remove t st) i = route st i"
  by (auto simp: route_remove split: option.splits)

lemma route_remove_id:
  "inv st \<Longrightarrow> conn st t = Some i \<Longrightarrow> i \<noteq> NONE \<Longrightarrow> route (remove t st) i = None"
  by (simp add: route_remove)

text \<open>A connection that takes over an identifier loses it again when the connection that had it
  before is removed.\<close>

lemma takeover_lost:
  assumes "inv st" and "conn st old = Some i" and "conn st new = Some NONE" and "i \<noteq> NONE"
    and "i < MAX_CLIENTS_COUNT" and "old \<noteq> new"
  shows "route (add new i st) i = Some new"
    and "conn (remove old (add new i st)) new = Some i"
    and "route (remove old (add new i st)) i = None"
proof -
  have inv: "inv (add new i st)" using assms by (intro inv_add) auto
  show "route (add new i st) i = Some new" using assms by (simp add: route_add)
  have "conn (add new i st) = (conn st)(new \<mapsto> i)" using assms by (simp add: conn_add)
  with assms(2,6) have "conn (add new i st) old = Some i" and "conn (add new i st) new = Some i"
    by auto
  with inv assms(4,6) show "conn (remove old (add new i st)) new = Some i"
    and "route (remove old (add new i st)) i = None"
    by (auto simp: conn_remove route_remove_id)
qed

end

interpretation tbl: routing sessions_inv "\<lambda>st. conns (table_of st)"
  "\<lambda>st. routes (table_of st)" accept_client add_node remove_locked
proof (unfold_locales, goal_cases)
  case (1 st s)
  then show ?case
    using accept_client_fresh [of st s] accept_client_relock [of st s]
    by (cases "sessions_by_socket st s") (auto simp: conns_None_iff)
next
  case (2 st s st') then show ?case by (simp add: accept_client_table tbl_accept_def)
next
  case (3 st s st') then show ?case by (simp add: accept_client_table tbl_accept_def)
next
  case (4 st s st') then show ?case by (rule accept_client_inv)
next
  case (5 st s i) then show ?case by (auto simp: add_node_table tbl_add_def)
next
  case (6 st s i) then show ?case by (auto simp: add_node_table tbl_add_def)
next
  case (7 st s i)
  then show ?case using conns_session_id [of st s] by (auto intro!: add_node_inv)
next
  case (8 st s)
  then show ?case by (auto simp: remove_locked_table tbl_remove_def split: option.splits)
next
  case (9 st s)
  then show ?case by (auto simp: remove_locked_table tbl_remove_def split: option.splits)
next
  case (10 st s) then show ?case by (rule remove_locked_inv)
next
  case (11 st i s)
  then obtain r where r: "sessions_by_id st i = Some r"
    by (cases "sessions_by_id st i") (auto simp: routes_table_of)
  from sessions_inv_id [OF 11(1) r 11(3)] 11(2) r show ?case
    by (auto simp: sess_simps)
qed

section \<open>Runs of operations\<close>

text \<open>
  The table states that sequences of the operations produce, in the way the router calls them:
  a node is added only to a connection that has no identifier.
\<close>

inductive sess_run :: "sessions \<Rightarrow> bool" where
  run_start: "sess_run sessions0"
| run_accept: "sess_run st \<Longrightarrow> accept_client s st = Inr st' \<Longrightarrow> sess_run st'"
| run_add: "sess_run st \<Longrightarrow> (\<And>r. find_session_by_socket s st = Some r \<Longrightarrow> session_id st r = NONE) \<Longrightarrow>
    sess_run (add_node s i st)"
| run_remove: "sess_run st \<Longrightarrow> removeSession False s st = Inr st' \<Longrightarrow> sess_run st'"

lemma sess_run_inv: "sess_run st \<Longrightarrow> sessions_inv st"
  by (induction rule: sess_run.induct)
    (auto simp: find_session_by_socket_def removeSession_free
      intro: accept_client_inv add_node_inv remove_locked_inv)

end
