(* ===== verification/Signaling_Queue.thy ===== *)
theory Signaling_Queue
  imports Prelude
begin

text \<open>
  The class template \<^verbatim>\<open>SignalingQueue\<close> (\<^verbatim>\<open>router/include/signaling_queue.h\<close>): a queue
  under a mutex with a condition variable. Each operation holds \<^verbatim>\<open>m_mutex\<close> from start to
  end, except while a \<^verbatim>\<open>pop\<close> sleeps in \<^verbatim>\<open>m_cond.wait\<close>; the model therefore has one
  atomic step per critical section. Besides the elements the state counts the threads that sleep
  in \<^verbatim>\<open>wait\<close> and those that have been woken and still have to look at the queue again.
\<close>

record 'a squeue =
  m_queue :: "'a list"
  sleeping :: nat
  woken :: nat

definition squeue0 :: "'a squeue" where
  "squeue0 = \<lparr>m_queue = [], sleeping = 0, woken = 0\<rparr>"

text \<open>\<^verbatim>\<open>notify_one\<close>: wakes one sleeping thread, if there is one.\<close>

definition notify_one :: "'a squeue \<Rightarrow> 'a squeue" where
  "notify_one q = (if sleeping q = 0 then q
     else q\<lparr>sleeping := sleeping q - 1, woken := Suc (woken q)\<rparr>)"

definition push :: "'a \<Rightarrow> bool \<Rightarrow> 'a squeue \<Rightarrow> 'a squeue" where
  "push item skip_if_repeated q =
     (if skip_if_repeated \<and> length (m_queue q) > 0 \<and> last (m_queue q) = item then q
      else notify_one (q\<lparr>m_queue := m_queue q @ [item]\<rparr>))"

text \<open>The predicate of \<^verbatim>\<open>wait\<close> and what follows it: \<open>None\<close> when the queue is empty and the
  thread has to sleep.\<close>

definition try_pop :: "'a squeue \<Rightarrow> ('a \<times> 'a squeue) option" where
  "try_pop q = (case m_queue q of [] \<Rightarrow> None | item # rest \<Rightarrow> Some (item, q\<lparr>m_queue := rest\<rparr>))"

text \<open>A thread that calls \<^verbatim>\<open>pop\<close>, and a thread that comes back from sleeping in it.\<close>

definition pop_enter :: "'a squeue \<Rightarrow> 'a option \<times> 'a squeue" where
  "pop_enter q =
     (case try_pop q of Some (item, q') \<Rightarrow> (Some item, q') | None \<Rightarrow> (None, q\<lparr>sleeping := Suc (sleeping q)\<rparr>))"

definition pop_resume :: "'a squeue \<Rightarrow> 'a option \<times> 'a squeue" where
  "pop_resume q = pop_enter (q\<lparr>woken := woken q - 1\<rparr>)"

inductive sq_step :: "'a squeue \<Rightarrow> 'a squeue \<Rightarrow> bool" where
  sq_push: "sq_step q (push x skip q)"
| sq_pop: "sq_step q (snd (pop_enter q))"
| sq_resume: "0 < woken q \<Longrightarrow> sq_step q (snd (pop_resume q))"
| sq_spurious: "0 < sleeping q \<Longrightarrow> sq_step q (q\<lparr>sleeping := sleeping q - 1, woken := Suc (woken q)\<rparr>)"

inductive sq_reach :: "'a squeue \<Rightarrow> bool" where
  sq_init: "sq_reach squeue0"
| sq_next: "sq_reach q \<Longrightarrow> sq_step q q' \<Longrightarrow> sq_reach q'"

inductive_cases sq_stepE: "sq_step q q'"

section \<open>Elements\<close>

lemma m_queue_notify_one [simp]: "m_queue (notify_one q) = m_queue q"
  by (simp add: notify_one_def)

lemma m_queue_push: "m_queue (push x skip q) =
  (if skip \<and> m_queue q \<noteq> [] \<and> last (m_queue q) = x then m_queue q else m_queue q @ [x])"
  by (simp add: push_def)

lemma try_pop_push: "try_pop q = Some (y, q') \<Longrightarrow>
  \<exists>q''. try_pop (push x skip q) = Some (y, q'') \<and>
    (m_queue q'' = m_queue q' @ [x] \<or> m_queue q'' = m_queue q')"
  by (auto simp: try_pop_def m_queue_push push_def split: list.splits if_splits)

text \<open>The interface of a queue with a client's push and pop.\<close>

locale fifo =
  fixes items :: "'q \<Rightarrow> 'a list"
    and put :: "'a \<Rightarrow> bool \<Rightarrow> 'q \<Rightarrow> 'q"
    and get :: "'q \<Rightarrow> ('a \<times> 'q) option"
  assumes items_put: "items (put x False q) = items q @ [x]"
    and items_put_skip: "items (put x True q) =
      (if items q \<noteq> [] \<and> last (items q) = x then items q else items q @ [x])"
    and get_None: "get q = None \<longleftrightarrow> items q = []"
    and get_Some: "get q = Some (x, q') \<Longrightarrow> items q = x # items q'"
begin

lemma items_put_all: "items (fold (\<lambda>x. put x False) xs q) = items q @ xs"
  by (induction xs arbitrary: q) (simp_all add: items_put)

lemma items_put_all_skip:
  "items q = remdups_adj ys \<Longrightarrow> items (fold (\<lambda>x. put x True) xs q) = remdups_adj (ys @ xs)"
proof (induction xs arbitrary: q ys)
  case Nil
  then show ?case by simp
next
  case (Cons x xs)
  have "items (put x True q) = remdups_adj (ys @ [x])"
    using Cons.prems by (cases ys rule: rev_cases) (simp_all add: items_put_skip remdups_adj_append_two)
  from Cons.IH [OF this] show ?case by simp
qed

text \<open>Taking as many elements as there are yields them in order and empties the queue.\<close>

primrec drain :: "nat \<Rightarrow> 'q \<Rightarrow> 'a list" where
  "drain 0 q = []"
| "drain (Suc n) q = (case get q of None \<Rightarrow> [] | Some (x, q') \<Rightarrow> x # drain n q')"

lemma drain_items: "drain (length (items q)) q = items q"
proof (induction "length (items q)" arbitrary: q)
  case 0
  then show ?case by simp
next
  case (Suc n)
  then obtain x q' where g: "get q = Some (x, q')"
    using get_None [of q] by (cases "get q") auto
  from get_Some [OF g] Suc have "drain n q' = items q'" by auto
  with get_Some [OF g] Suc.hyps(2) g show ?case by (metis drain.simps(2) length_Cons option.simps(5) old.prod.case)
qed

end

interpretation sq: fifo m_queue push try_pop
  by unfold_locales (auto simp: m_queue_push try_pop_def split: list.splits)

text \<open>Taking elements one after the other.\<close>

primrec pop_all :: "nat \<Rightarrow> 'a squeue \<Rightarrow> 'a list" where
  "pop_all 0 q = []"
| "pop_all (Suc n) q = (case try_pop q of None \<Rightarrow> [] | Some (x, q') \<Rightarrow> x # pop_all n q')"

lemma pop_all_items: "pop_all (length (m_queue q)) q = m_queue q"
proof -
  have "pop_all n q = sq.drain n q" for n
    by (induction n arbitrary: q) (auto split: option.splits)
  then show ?thesis by (simp add: sq.drain_items)
qed

section \<open>No lost wake-up\<close>

text \<open>As long as a thread sleeps, every element in the queue has a woken thread that is on its
  way to it.\<close>

definition sq_inv :: "'a squeue \<Rightarrow> bool" where
  "sq_inv q \<longleftrightarrow> sleeping q = 0 \<or> length (m_queue q) \<le> woken q"

lemma sq_step_inv: "sq_step q q' \<Longrightarrow> sq_inv q \<Longrightarrow> sq_inv q'"
  by (elim sq_stepE)
    (auto simp: sq_inv_def push_def notify_one_def pop_enter_def pop_resume_def try_pop_def
      split: list.splits)

lemma sq_reach_inv: "sq_reach q \<Longrightarrow> sq_inv q"
  by (induction rule: sq_reach.induct) (auto simp: sq_inv_def squeue0_def dest: sq_step_inv)

end
