(* ===== verification/Table_Properties.thy ===== *)
theory Table_Properties
  imports Sessions_Table Signaling_Queue
begin

text \<open>
  The properties of the session tables and of the queues between the threads.
\<close>

section \<open>A sample table\<close>

text \<open>Sockets 4 and 5 are connected; 4 has taken the identifier 3, and 5 the identifier
  \<open>i\<close>.\<close>

definition accepted :: "sock \<Rightarrow> sessions \<Rightarrow> sessions" where
  "accepted s st = (case accept_client s st of Inl _ \<Rightarrow> st | Inr st' \<Rightarrow> st')"

definition sample :: "int \<Rightarrow> sessions" where
  "sample i = add_node 5 i (accepted 5 (add_node 4 3 (accepted 4 sessions0)))"

lemmas sample_defs = sample_def accepted_def sessions0_def sessions_defs session_defs session_id_def
  NONE_def MAX_CLIENTS_COUNT_def table_of_def session_socket_def

lemma sample_run: "sess_run (sample i)"
proof -
  have "sess_run (accepted 4 sessions0)"
    by (rule run_accept [OF run_start, of 4]) (simp add: sample_defs)
  then have "sess_run (add_node 4 3 (accepted 4 sessions0))"
    by (rule run_add) (simp add: sample_defs)
  then have "sess_run (accepted 5 (add_node 4 3 (accepted 4 sessions0)))"
    by (rule run_accept [where s = 5]) (simp add: sample_defs)
  then show ?thesis
    unfolding sample_def by (rule run_add) (simp add: sample_defs)
qed

section \<open>Session tables\<close>

text \<open>C13: In every table state the router can produce, an identifier other than \<open>NONE\<close> that has a
  session leads to a session object that carries this identifier and is still connected, and it is
  below the limit of 999; the vector of accepted sockets lists exactly the connected sockets, each
  once.\<close>

theorem routes_lead_to_connections:
  assumes "sess_run st"
  shows "distinct (get_accpeted_sockets st) \<and>
    (\<forall>s. s \<in> set (get_accpeted_sockets st) \<longleftrightarrow> find_session_by_socket s st \<noteq> None) \<and>
    (\<forall>i r. find_session_by_id i st = Some r \<and> i \<noteq> NONE \<longrightarrow>
       i < 999 \<and> session_id st r = i \<and>
       (\<exists>s. session_socket st r = Some s \<and> find_session_by_socket s st = Some r))"
proof -
  note inv = sess_run_inv [OF assms]
  have "i < 999 \<and> session_id st r = i \<and>
      (\<exists>s. session_socket st r = Some s \<and> find_session_by_socket s st = Some r)"
    if "find_session_by_id i st = Some r" "i \<noteq> NONE" for i r
    using sessions_inv_id [OF inv, of i r] sessions_inv_limit [OF inv, of i r] that
    by (auto simp: find_session_by_id_def find_session_by_socket_def session_id_def
        session_socket_def session_defs MAX_CLIENTS_COUNT_def)
  then show ?thesis
    using sessions_inv_distinct [OF inv] sessions_inv_accepted [OF inv]
    by (auto simp: get_accpeted_sockets_def find_session_by_socket_def)
qed

theorem routes_lead_to_connections_witness:
  "find_session_by_id 5 (sample 5) = Some 1 \<and> session_id (sample 5) 1 = 5 \<and>
   distinct (get_accpeted_sockets (sample 5))"
proof -
  have "find_session_by_id 5 (sample 5) = Some 1" by (simp add: sample_defs)
  with routes_lead_to_connections [OF sample_run, of 5] show ?thesis by (auto simp: NONE_def)
qed

text \<open>C14: On the table of connections and routes the three updates of the session tables act as
  plain map updates: accepting adds a connection without identifier, adding a node sets the
  connection's identifier and the identifier's route unless the socket is unknown or the
  identifier is 999 or more, and removing a connection deletes it together with the route of its
  identifier.\<close>

theorem operations_refine_table:
  assumes "sess_run st"
  shows "(find_session_by_socket s st = None \<longrightarrow>
      (\<exists>st'. accept_client s st = Inr st' \<and> table_of st' = tbl_accept s (table_of st))) \<and>
    table_of (add_node s i st) = tbl_add s i (table_of st) \<and>
    (\<exists>st'. removeSession False s st = Inr st' \<and> table_of st' = tbl_remove s (table_of st))"
proof -
  note inv = sess_run_inv [OF assms]
  have "\<exists>st'. accept_client s st = Inr st' \<and> table_of st' = tbl_accept s (table_of st)"
    if "find_session_by_socket s st = None"
    using that accept_client_fresh [of st s] accept_client_table [OF inv, of s]
    by (simp add: find_session_by_socket_def)
  then show ?thesis by (simp add: add_node_table [OF inv] remove_locked_table [OF inv] removeSession_free)
qed

theorem operations_refine_table_witness:
  "(\<exists>st'. accept_client 6 (sample 5) = Inr st' \<and> table_of st' = tbl_accept 6 (table_of (sample 5))) \<and>
   (\<exists>st'. removeSession False 6 (sample 5) = Inr st' \<and> table_of st' = tbl_remove 6 (table_of (sample 5)))"
proof -
  have "find_session_by_socket 6 (sample 5) = None" by (simp add: sample_defs)
  with operations_refine_table [OF sample_run, of 6 5] show ?thesis by blast
qed

text \<open>Accepting a socket succeeds if and only if the socket is not registered; otherwise
  \<^verbatim>\<open>accept_client\<close> calls \<^verbatim>\<open>removeSession\<close> while it owns \<^verbatim>\<open>sessions_mutex_\<close>, and the thread
  locks the mutex a second time.\<close>

lemma accept_relocks:
  "accept_client s st = Inl Relock_sessions_mutex \<longleftrightarrow> find_session_by_socket s st \<noteq> None"
  using accept_client_relock [of st s] accept_client_fresh [of st s]
  by (cases "sessions_by_socket st s") (auto simp: find_session_by_socket_def)

text \<open>C31: When a second connection takes over an identifier, messages for it go to the second
  connection; as soon as the first connection is removed, the identifier has no route any more,
  although the second connection is alive and still carries it.\<close>

theorem takeover_is_lost:
  assumes "sess_run st" and "conns (table_of st) old = Some i" and "conns (table_of st) new = Some NONE"
    and "i \<noteq> NONE" and "i < 999" and "old \<noteq> new"
  shows "routes (table_of (add_node new i st)) i = Some new \<and>
    (\<exists>st'. removeSession False old (add_node new i st) = Inr st' \<and>
       conns (table_of st') new = Some i \<and> find_session_by_id i st' = None)"
proof -
  note inv = sess_run_inv [OF assms(1)]
  have lim: "i < MAX_CLIENTS_COUNT" using assms(5) by (simp add: MAX_CLIENTS_COUNT_def)
  note lost = tbl.takeover_lost [OF inv assms(2-4) lim assms(6)]
  have inv': "sessions_inv (remove_locked old (add_node new i st))"
    using tbl.inv_remove [OF tbl.inv_add [OF inv]] assms(3) by simp
  have "find_session_by_id i (remove_locked old (add_node new i st)) = None"
    using lost(3) sessions_inv_id_store [OF inv', of i]
    by (cases "sessions_by_id (remove_locked old (add_node new i st)) i")
      (auto simp: find_session_by_id_def routes_table_of)
  with lost show ?thesis by (simp add: removeSession_free)
qed

theorem takeover_is_lost_witness:
  "routes (table_of (add_node 5 3 (sample 999))) 3 = Some 5 \<and>
   (\<exists>st'. removeSession False 4 (add_node 5 3 (sample 999)) = Inr st' \<and>
      conns (table_of st') 5 = Some 3 \<and> find_session_by_id 3 st' = None)"
proof -
  have "conns (table_of (sample 999)) 4 = Some 3" "conns (table_of (sample 999)) 5 = Some NONE"
    by (simp_all add: sample_defs)
  from takeover_is_lost [OF sample_run this] show ?thesis by (simp add: NONE_def)
qed

section \<open>Queues\<close>

text \<open>Elements leave a queue in the order in which they were pushed: taking as many elements as
  there are after pushing \<open>xs\<close> yields what was in the queue, followed by \<open>xs\<close>.\<close>

lemma queue_is_fifo:
  "pop_all (length (m_queue q) + length xs) (fold (\<lambda>x. push x False) xs q) = m_queue q @ xs"
proof -
  have items: "m_queue (fold (\<lambda>x. push x False) xs q) = m_queue q @ xs" by (rule sq.items_put_all)
  with pop_all_items [of "fold (\<lambda>x. push x False) xs q"] show ?thesis by simp
qed

text \<open>No wake-up is lost: in every state that pushes, pops, wake-ups and spurious wake-ups
  produce, if the queue is not empty and some thread sleeps in \<^verbatim>\<open>pop\<close>, then at least as many
  threads as there are elements have been woken and will find one.\<close>

lemma no_lost_wakeup:
  assumes "sq_reach q" and "0 < sleeping q"
  shows "length (m_queue q) \<le> woken q"
  using sq_reach_inv [OF assms(1)] assms(2) by (simp add: sq_inv_def)

end
