(* ===== verification/Os_Api.thy ===== *)
theory Os_Api
  imports Prelude
begin

text \<open>
  The operating system's socket interface, which both programs call and which is not part of the
  sources. It is a parameter of the model: a record of functions over an abstract world type
  \<open>'w\<close> (and an abstract type \<open>'f\<close> of descriptor sets), each returning the call's result and the
  new world. What the programs rely on is stated in locales, as the documented behaviour of these
  calls; theorems that need it take the locale predicate as a hypothesis. \<open>Script_Net\<close> gives a
  concrete instance, sockets with inbound chunks and outbound logs, that satisfies all of them.
\<close>

section \<open>The calls\<close>

datatype platform = Win32 | Posix

datatype errcode = WSAEWOULDBLOCK | EWOULDBLOCK | EAGAIN | Other_error int

type_synonym port = "16 word"

record 'w sock_api =
  api_startup :: "'w \<Rightarrow> int \<times> 'w"
  api_cleanup :: "'w \<Rightarrow> 'w"
  api_socket :: "'w \<Rightarrow> sock \<times> 'w"
  api_recv :: "sock \<Rightarrow> nat \<Rightarrow> 'w \<Rightarrow> int \<times> char list \<times> 'w"
  api_send :: "sock \<Rightarrow> string \<Rightarrow> 'w \<Rightarrow> int \<times> 'w"
  api_close :: "sock \<Rightarrow> 'w \<Rightarrow> 'w"
  api_errno :: "'w \<Rightarrow> errcode"
  api_inet_pton :: "string \<Rightarrow> 32 word"

record ('w, 'f) server_api = "'w sock_api" +
  api_bind :: "sock \<Rightarrow> 32 word \<Rightarrow> port \<Rightarrow> 'w \<Rightarrow> int \<times> 'w"
  api_listen :: "sock \<Rightarrow> int \<Rightarrow> 'w \<Rightarrow> int \<times> 'w"
  api_accept :: "sock \<Rightarrow> 'w \<Rightarrow> sock \<times> 'w"
  api_ioctl_nonblock :: "sock \<Rightarrow> 'w \<Rightarrow> int \<times> 'w"
  api_fcntl_getfl :: "sock \<Rightarrow> 'w \<Rightarrow> int \<times> 'w"
  api_fcntl_setfl :: "sock \<Rightarrow> int \<Rightarrow> 'w \<Rightarrow> int \<times> 'w"
  api_O_NONBLOCK :: int
  api_FD_ZERO :: "'f \<Rightarrow> 'f"
  api_FD_SET :: "sock \<Rightarrow> 'f \<Rightarrow> 'f"
  api_FD_ISSET :: "sock \<Rightarrow> 'f \<Rightarrow> bool"
  api_fd_array :: "'f \<Rightarrow> sock list"
  api_select :: "int \<Rightarrow> 'f \<Rightarrow> 'w \<Rightarrow> int \<times> 'f \<times> 'w"

record 'w client_api = "'w sock_api" +
  api_connect :: "sock \<Rightarrow> 32 word \<Rightarrow> port \<Rightarrow> 'w \<Rightarrow> int \<times> 'w"
  api_Sleep :: "int \<Rightarrow> 'w \<Rightarrow> 'w"
  api_usleep :: "int \<Rightarrow> 'w \<Rightarrow> 'w"

text \<open>\<^verbatim>\<open>htons\<close> takes a \<^verbatim>\<open>u_short\<close>: the port number modulo 65536.\<close>

definition htons :: "int \<Rightarrow> port" where
  "htons p = word_of_int p"

text \<open>The error codes that mean that a non-blocking call would have had to wait.\<close>

definition would_block :: "platform \<Rightarrow> errcode \<Rightarrow> bool" where
  "would_block pf e =
     (case pf of Win32 \<Rightarrow> e = WSAEWOULDBLOCK | Posix \<Rightarrow> e = EWOULDBLOCK \<or> e = EAGAIN)"

section \<open>What recv promises\<close>

text \<open>\<^verbatim>\<open>recv\<close> fails with \<open>-1\<close> or stores at most as many bytes as asked for and returns their
  number.\<close>

locale recv_api =
  fixes api :: "('w, 'x) sock_api_scheme"
  assumes recv_result: "api_recv api s n w = (r, bs, w') \<Longrightarrow>
    r = SOCKET_ERROR \<and> bs = [] \<or> 0 \<le> r \<and> r \<le> int n \<and> length bs = nat r"
begin

lemma recv_length: "api_recv api s n w = (r, bs, w') \<Longrightarrow> length bs \<le> n"
  using recv_result by fastforce

lemma recv_pos: "api_recv api s n w = (r, bs, w') \<Longrightarrow> 0 < r \<Longrightarrow> length bs = nat r \<and> r \<le> int n"
  using recv_result by (fastforce simp: SOCKET_ERROR_def)

end

text \<open>
  A connected socket is a byte stream: \<open>pending w s\<close> are the bytes that have arrived on \<open>s\<close> and
  have not been read. A \<^verbatim>\<open>recv\<close> takes a non-empty prefix of them, of a length that the
  program cannot foresee; more bytes may arrive meanwhile.
\<close>

locale byte_stream = recv_api api
  for api :: "('w, 'x) sock_api_scheme" +
  fixes pending :: "'w \<Rightarrow> sock \<Rightarrow> string"
  assumes recv_data: "pending w s \<noteq> [] \<Longrightarrow> 0 < n \<Longrightarrow> api_recv api s n w = (r, bs, w') \<Longrightarrow>
    0 < r \<and> bs = take (nat r) (pending w s) \<and>
    (\<exists>new. pending w' s = drop (nat r) (pending w s) @ new)"

datatype conn_status = Open | Closed | Broken

text \<open>
  The same stream while nothing arrives: what is left is what was not taken, and with nothing
  pending \<^verbatim>\<open>recv\<close> reports the state of the connection.
\<close>

locale quiet_stream = byte_stream api pending
  for api :: "('w, 'x) sock_api_scheme" and pending +
  fixes pf :: platform
    and status :: "'w \<Rightarrow> sock \<Rightarrow> conn_status"
  assumes recv_quiet: "pending w s \<noteq> [] \<Longrightarrow> 0 < n \<Longrightarrow> api_recv api s n w = (r, bs, w') \<Longrightarrow>
    pending w' = (pending w)(s := drop (nat r) (pending w s)) \<and> status w' = status w"
    and recv_empty: "pending w s = [] \<Longrightarrow> 0 < n \<Longrightarrow> api_recv api s n w = (r, bs, w') \<Longrightarrow>
    bs = [] \<and> pending w' = pending w \<and> status w' = status w \<and>
    (case status w s of
       Open \<Rightarrow> r = SOCKET_ERROR \<and> would_block pf (api_errno api w')
     | Closed \<Rightarrow> r = 0
     | Broken \<Rightarrow> r = SOCKET_ERROR \<and> \<not> would_block pf (api_errno api w'))"

text \<open>
  The same stream with any timing: \<open>future w s\<close> are all bytes that will ever be received on \<open>s\<close>.
  A \<^verbatim>\<open>recv\<close> takes some of the next ones or none, and with none it may report anything, in
  particular at any moment that nothing has arrived yet. A quiet stream is a special case.
\<close>

locale timed_stream = recv_api api
  for api :: "('w, 'x) sock_api_scheme" +
  fixes future :: "'w \<Rightarrow> sock \<Rightarrow> string"
  assumes recv_future: "0 < n \<Longrightarrow> api_recv api s n w = (r, bs, w') \<Longrightarrow>
    \<exists>rest. future w s = bs @ rest \<and> future w' = (future w)(s := rest)"

sublocale quiet_stream \<subseteq> timed: timed_stream api pending
proof (unfold_locales, goal_cases)
  case (1 n s w r bs w')
  show ?case
  proof (cases "pending w s = []")
    case True
    with recv_empty [OF True 1] show ?thesis by (auto simp: fun_eq_iff)
  next
    case False
    with recv_data [OF False 1] recv_quiet [OF False 1] show ?thesis
      by (intro exI [of _ "drop (nat r) (pending w s)"]) simp
  qed
qed

section \<open>What send promises\<close>

text \<open>\<^verbatim>\<open>send\<close> fails or takes at most all of the message and returns how much it took.\<close>

locale send_api =
  fixes api :: "('w, 'x) sock_api_scheme"
  assumes send_result: "api_send api s m w = (r, w') \<Longrightarrow>
    r = SOCKET_ERROR \<or> 0 \<le> r \<and> r \<le> int (length m)"

text \<open>
  A connection of a blocking socket. \<open>pieces\<close> are the non-empty pieces in which the bytes of the
  stream arrive, in any division whatever: a \<^verbatim>\<open>recv\<close> returns what has arrived, at most as many bytes as
  asked for, and the rest of the piece stays for the next call. After the last piece \<^verbatim>\<open>recv\<close> reports
  the end or an error. While the connection is \<open>writable\<close>, \<^verbatim>\<open>send\<close> waits until it has taken the whole
  message; \<open>sent\<close> are the bytes that were sent.
\<close>

locale piece_stream = recv_api api
  for api :: "('w, 'x) sock_api_scheme" +
  fixes pieces :: "'w \<Rightarrow> sock \<Rightarrow> string list"
    and sent :: "'w \<Rightarrow> sock \<Rightarrow> string"
    and writable :: "'w \<Rightarrow> sock \<Rightarrow> bool"
  assumes recv_piece: "pieces w s = p # ps \<Longrightarrow> p \<noteq> [] \<Longrightarrow> 0 < n \<Longrightarrow>
      \<exists>w'. api_recv api s n w = (int (min n (length p)), take n p, w') \<and>
        pieces w' s = (if length p \<le> n then ps else drop n p # ps) \<and>
        sent w' s = sent w s \<and> writable w' s = writable w s"
    and recv_end: "pieces w s = [] \<Longrightarrow> api_recv api s n w = (r, bs, w') \<Longrightarrow>
      r \<le> 0 \<and> sent w' s = sent w s"
    and send_all: "writable w s \<Longrightarrow> \<exists>w'. api_send api s m w = (int (length m), w') \<and>
      writable w' s \<and> pieces w' s = pieces w s \<and> sent w' s = sent w s @ m"
    and close_sent: "sent (api_close api s w) t = sent w t"
    and cleanup_sent: "sent (api_cleanup api w) t = sent w t"

section \<open>What the descriptor calls promise\<close>

text \<open>
  \<open>opened w\<close> are the descriptors in use. \<^verbatim>\<open>accept\<close> hands out one that is not in use, and
  only \<^verbatim>\<open>close\<close> gives one back.
\<close>

locale descriptor_api =
  fixes api :: "('w, 'f, 'x) server_api_scheme"
    and opened :: "'w \<Rightarrow> sock set"
  assumes accept_opened: "api_accept api s w = (c, w') \<Longrightarrow>
      c = SOCKET_ERROR \<and> opened w' = opened w \<or>
      0 \<le> c \<and> c \<notin> opened w \<and> opened w' = insert c (opened w)"
    and recv_opened: "api_recv api s n w = (r, bs, w') \<Longrightarrow> opened w' = opened w"
    and send_opened: "api_send api s m w = (r, w') \<Longrightarrow> opened w' = opened w"
    and select_opened: "api_select api k f w = (r, f', w') \<Longrightarrow> opened w' = opened w"
    and ioctl_opened: "api_ioctl_nonblock api s w = (r, w') \<Longrightarrow> opened w' = opened w"
    and getfl_opened: "api_fcntl_getfl api s w = (r, w') \<Longrightarrow> opened w' = opened w"
    and setfl_opened: "api_fcntl_setfl api s fl w = (r, w') \<Longrightarrow> opened w' = opened w"
    and close_opened: "opened (api_close api s w) = opened w - {s}"

text \<open>
  Descriptor sets as the router uses them: a counted array that \<^verbatim>\<open>FD_SET\<close> extends until
  \<open>cap\<close> entries are in it, and \<^verbatim>\<open>select\<close>, which fails or keeps some entries and returns
  how many it kept.
\<close>

locale fd_set_api =
  fixes api :: "('w, 'f, 'x) server_api_scheme"
    and cap :: nat
  assumes fd_zero: "api_fd_array api (api_FD_ZERO api f) = []"
    and fd_set: "api_fd_array api (api_FD_SET api s f) =
      (if s \<in> set (api_fd_array api f) \<or> cap \<le> length (api_fd_array api f)
       then api_fd_array api f else api_fd_array api f @ [s])"
    and fd_isset: "api_FD_ISSET api s f \<longleftrightarrow> s \<in> set (api_fd_array api f)"
    and select_kept: "api_select api k f w = (r, f', w') \<Longrightarrow>
      r = SOCKET_ERROR \<or>
      r = int (length (api_fd_array api f')) \<and> set (api_fd_array api f') \<subseteq> set (api_fd_array api f)"

end
