(* ===== verification/Tcp_Server.thy ===== *)
theory Tcp_Server
  imports Os_Api
begin

unbundle bit_operations_syntax

text \<open>
  The class \<^verbatim>\<open>TcpServer\<close> (\<^verbatim>\<open>router/src/tcpserver.cpp\<close>): opening the listening socket,
  accepting a client in non-blocking mode, reading until a buffer is full or nothing more has
  arrived, sending, and filling the descriptor set for \<^verbatim>\<open>select\<close>. Both branches of the
  \<^verbatim>\<open>#ifdef _WIN32\<close> are modelled; the argument \<open>pf\<close> selects one.
\<close>

section \<open>The code\<close>

definition start_tcp_server ::
    "platform \<Rightarrow> ('w, 'f, 'x) server_api_scheme \<Rightarrow> int \<Rightarrow> 'w \<Rightarrow> int \<times> 'w" where
  "start_tcp_server pf api port w0 =
     (case (if pf = Win32 then api_startup api w0 else (0, w0)) of (err, w1) \<Rightarrow>
      if err \<noteq> 0 then (SOCKET_ERROR, w1)
      else case api_socket api w1 of (server_socket, w2) \<Rightarrow>
      if server_socket = -1 then (SOCKET_ERROR, w2)
      else case api_bind api server_socket (api_inet_pton api ''127.0.0.1'') (htons port) w2 of
             (bindStatus, w3) \<Rightarrow>
      if bindStatus < 0 then (SOCKET_ERROR, w3)
      else case api_listen api server_socket 5 w3 of (_, w4) \<Rightarrow> (server_socket, w4))"

definition set_client_socket_nonblocking ::
    "platform \<Rightarrow> ('w, 'f, 'x) server_api_scheme \<Rightarrow> sock \<Rightarrow> 'w \<Rightarrow> int \<times> 'w" where
  "set_client_socket_nonblocking pf api client_socket w =
     (case pf of
        Win32 \<Rightarrow>
          (case api_ioctl_nonblock api client_socket w of (r, w1) \<Rightarrow>
             if r \<noteq> 0 then (SOCKET_ERROR, api_close api client_socket w1) else (0, w1))
      | Posix \<Rightarrow>
          (case api_fcntl_getfl api client_socket w of (flags, w1) \<Rightarrow>
           case api_fcntl_setfl api client_socket (flags OR api_O_NONBLOCK api) w1 of (r, w2) \<Rightarrow>
             if r = -1 then (SOCKET_ERROR, api_close api client_socket w2) else (0, w2)))"

definition tcp_accept_client ::
    "platform \<Rightarrow> ('w, 'f, 'x) server_api_scheme \<Rightarrow> sock \<Rightarrow> 'w \<Rightarrow> int \<times> 'w" where
  "tcp_accept_client pf api server_socket w =
     (case api_accept api server_socket w of (new_client, w1) \<Rightarrow>
      case set_client_socket_nonblocking pf api new_client w1 of (err, w2) \<Rightarrow>
      if err = 0 then (new_client, w2) else (err, w2))"

definition no_more_data :: "platform \<Rightarrow> ('w, 'x) sock_api_scheme \<Rightarrow> 'w \<Rightarrow> bool" where
  "no_more_data pf api w = would_block pf (api_errno api w)"

text \<open>
  \<^verbatim>\<open>read_async\<close>: the \<^verbatim>\<open>while (true)\<close> loop over \<^verbatim>\<open>recv\<close>, with \<open>total_read\<close> and the
  buffer as its state. It is a partial function: \<open>None\<close> stands for not returning. The
  subtraction \<open>buffer_len - total_read\<close> is on \<^verbatim>\<open>size_t\<close>; \<open>total_read\<close> stays below
  \<open>buffer_len\<close> as long as \<^verbatim>\<open>recv\<close> returns no more than it was asked for.
\<close>

partial_function (option) read_loop ::
    "platform \<Rightarrow> ('w, 'x) sock_api_scheme \<Rightarrow> sock \<Rightarrow> nat \<Rightarrow> nat \<Rightarrow> buffer \<Rightarrow> 'w \<Rightarrow>
     (int \<times> buffer \<times> 'w) option" where
  "read_loop pf api client_socket buffer_len total_read buf w =
     (case api_recv api client_socket (buffer_len - total_read) w of (bytes_read, bs, w1) \<Rightarrow>
      let buf1 = overwrite buf total_read bs in
      if bytes_read > 0 then
        (if total_read + nat bytes_read = buffer_len
         then Some (int (total_read + nat bytes_read), buf1, w1)
         else read_loop pf api client_socket buffer_len (total_read + nat bytes_read) buf1 w1)
      else if bytes_read = SOCKET_ERROR then
        (if no_more_data pf api w1 then Some (int total_read, buf1, w1)
         else Some (SOCKET_ERROR, buf1, w1))
      else Some (SOCKET_ERROR, buf1, w1))"

definition read_async ::
    "platform \<Rightarrow> ('w, 'x) sock_api_scheme \<Rightarrow> sock \<Rightarrow> buffer \<Rightarrow> nat \<Rightarrow> 'w \<Rightarrow>
     (int \<times> buffer \<times> 'w) option" where
  "read_async pf api client_socket buf buffer_len w =
     read_loop pf api client_socket buffer_len 0 buf w"

definition send_to_client ::
    "('w, 'x) sock_api_scheme \<Rightarrow> sock \<Rightarrow> string \<Rightarrow> 'w \<Rightarrow> int \<times> 'w" where
  "send_to_client api client_socket msg w =
     (case api_send api client_socket msg w of (bytesSent, w1) \<Rightarrow>
        if bytesSent \<noteq> int (length msg) then (SOCKET_ERROR, w1) else (bytesSent, w1))"

fun fd_set_loop ::
    "('w, 'f, 'x) server_api_scheme \<Rightarrow> sock list \<Rightarrow> 'f \<Rightarrow> int \<Rightarrow> 'f \<times> int" where
  "fd_set_loop api [] fd max_sd = (fd, max_sd)"
| "fd_set_loop api (sd # sds) fd max_sd =
     fd_set_loop api sds (api_FD_SET api sd fd) (if sd > max_sd then sd else max_sd)"

definition reset_fd_set ::
    "('w, 'f, 'x) server_api_scheme \<Rightarrow> 'f \<Rightarrow> sock \<Rightarrow> sock list \<Rightarrow> 'f \<times> int" where
  "reset_fd_set api fd server_socket clients_socket =
     fd_set_loop api clients_socket (api_FD_SET api server_socket (api_FD_ZERO api fd))
       server_socket"

section \<open>Reading changes only what recv changes\<close>

definition recv_keeps :: "('w, 'x) sock_api_scheme \<Rightarrow> ('w \<Rightarrow> 'a) \<Rightarrow> bool" where
  "recv_keeps api f \<longleftrightarrow> (\<forall>s n w. f (snd (snd (api_recv api s n w))) = f w)"

lemma recv_keepsD: "recv_keeps api f \<Longrightarrow> api_recv api s n w = (r, bs, w') \<Longrightarrow> f w' = f w"
  unfolding recv_keeps_def by (metis snd_conv)

lemma read_loop_keeps:
  assumes "recv_keeps api f" and "read_loop pf api s n got buf w = Some res"
  shows "f (snd (snd res)) = f w"
proof -
  have "(\<lambda>pf a s n got buf w res. a = api \<longrightarrow> f (snd (snd res)) = f w) pf api s n got buf w res"
    by (rule read_loop.raw_induct [OF _ assms(2)])
      (auto simp: Let_def dest: recv_keepsD [OF assms(1)] split: prod.splits if_splits)
  then show ?thesis by simp
qed

lemma read_async_keeps:
  assumes "recv_keeps api f" and "read_async pf api s buf n w = Some (k, buf', w')"
  shows "f w' = f w"
  using read_loop_keeps [OF assms(1)] assms(2) by (fastforce simp: read_async_def)

section \<open>Reading: the loop returns and stays inside the buffer\<close>

context recv_api
begin

lemma read_loop_ok:
  assumes "got < n" and "n \<le> length buf"
  shows "\<exists>r buf' w'. read_loop pf api s n got buf w = Some (r, buf', w') \<and>
    (r = SOCKET_ERROR \<or> int got \<le> r \<and> r \<le> int n) \<and>
    length buf' = length buf \<and> drop n buf' = drop n buf \<and> take got buf' = take got buf"
  using assms
proof (induction "n - got" arbitrary: got buf w rule: less_induct)
  case less
  obtain k bs w1 where rc: "api_recv api s (n - got) w = (k, bs, w1)" by (metis prod_cases3)
  define buf1 where "buf1 = overwrite buf got bs"
  have fits: "got + length bs \<le> n" using recv_length [OF rc] less.prems(1) by simp
  then have b1: "length buf1 = length buf" "drop n buf1 = drop n buf"
    "take got buf1 = take got buf"
    using less.prems by (simp_all add: buf1_def overwrite_def)
  show ?case
  proof (cases "0 < k \<and> got + nat k \<noteq> n")
    case True
    then have "length bs = nat k" using recv_pos [OF rc] by simp
    then have "got + nat k < n" "n - (got + nat k) < n - got"
      using True fits by auto
    from less.hyps [OF this(2) this(1), of buf1 w1] b1 less.prems(2)
    obtain r buf' w' where rec:
      "read_loop pf api s n (got + nat k) buf1 w1 = Some (r, buf', w')"
      "r = SOCKET_ERROR \<or> int (got + nat k) \<le> r \<and> r \<le> int n"
      "length buf' = length buf" "drop n buf' = drop n buf"
      "take (got + nat k) buf' = take (got + nat k) buf1" by auto
    then have "take got buf' = take got buf"
      using b1(3) by (metis le_add1 min.absorb1 take_take)
    with rec True rc show ?thesis
      by (subst read_loop.simps) (auto simp: buf1_def Let_def)
  next
    case False
    then show ?thesis
      using b1 less.prems rc by (subst read_loop.simps) (auto simp: buf1_def Let_def)
  qed
qed

lemma read_async_ok:
  assumes "0 < n" and "n \<le> length buf"
  obtains r buf' w' where "read_async pf api s buf n w = Some (r, buf', w')"
    and "r = SOCKET_ERROR \<or> 0 \<le> r \<and> r \<le> int n"
    and "length buf' = length buf" and "drop n buf' = drop n buf"
  using read_loop_ok [of 0 n buf pf s w] assms by (auto simp: read_async_def)

end

section \<open>Reading from a stream\<close>

context byte_stream
begin

text \<open>With enough bytes pending the buffer is filled with exactly the first of them, however
  \<^verbatim>\<open>recv\<close> cuts the stream into pieces.\<close>

lemma read_loop_full:
  assumes "got < n" and "n \<le> length buf" and "n - got \<le> length (pending w s)"
  shows "\<exists>w' new. read_loop pf api s n got buf w =
      Some (int n, overwrite buf got (take (n - got) (pending w s)), w') \<and>
    pending w' s = drop (n - got) (pending w s) @ new"
  using assms
proof (induction "n - got" arbitrary: got buf w rule: less_induct)
  case less
  obtain k bs w1 where rc: "api_recv api s (n - got) w = (k, bs, w1)" by (metis prod_cases3)
  have "pending w s \<noteq> []" using less.prems(1,3) by auto
  from recv_data [OF this _ rc] less.prems(1) obtain new where
    d: "0 < k" "bs = take (nat k) (pending w s)" "pending w1 s = drop (nat k) (pending w s) @ new"
    by auto
  have kn: "nat k \<le> n - got" "length bs = nat k" using recv_pos [OF rc d(1)] by auto
  show ?case
  proof (cases "got + nat k = n")
    case True
    with d kn less.prems(1) have "nat k = n - got" by simp
    with d rc True show ?thesis
      by (subst read_loop.simps) (simp add: Let_def)
  next
    case False
    with d(1) kn(1) less.prems(1) have lt: "got + nat k < n" and
      "n - (got + nat k) < n - got" by linarith+
    let ?buf = "overwrite buf got bs"
    have "n \<le> length ?buf" using kn less.prems(1,2) by simp
    moreover have "n - (got + nat k) \<le> length (pending w1 s)"
      using less.prems(3) kn by (simp add: d(3))
    ultimately obtain w' new' where rec:
      "read_loop pf api s n (got + nat k) ?buf w1 =
         Some (int n, overwrite ?buf (got + nat k)
           (take (n - (got + nat k)) (pending w1 s)), w')"
      "pending w' s = drop (n - (got + nat k)) (pending w1 s) @ new'"
      using less.hyps [OF \<open>n - (got + nat k) < n - got\<close> lt] by blast
    have split: "take (n - got) (pending w s) =
        bs @ take (n - (got + nat k)) (pending w1 s)"
      using kn less.prems(3) take_add [of "nat k" "n - (got + nat k)" "pending w s"] lt
      by (simp add: d(2,3))
    have "overwrite ?buf (got + nat k) (take (n - (got + nat k)) (pending w1 s)) =
        overwrite buf got (take (n - got) (pending w s))"
      unfolding split using overwrite_overwrite [of got buf bs] less.prems(1,2) kn by simp
    moreover have "drop (n - (got + nat k)) (pending w1 s) =
        drop (n - got) (pending w s) @ new"
      using kn less.prems(3) lt by (simp add: d(3))
    ultimately show ?thesis
      using rec rc False d(1) by (subst read_loop.simps) (simp add: Let_def)
  qed
qed

lemma read_async_full:
  assumes "0 < n" and "n \<le> length buf" and "n \<le> length (pending w s)"
  obtains w' new where "read_async pf api s buf n w =
      Some (int n, overwrite buf 0 (take n (pending w s)), w')"
    and "pending w' s = drop n (pending w s) @ new"
  using read_loop_full [of 0 n buf w s pf] assms by (auto simp: read_async_def)

end

text \<open>
  What a read of \<open>n\<close> bytes returns when \<open>p\<close> is pending and the connection has status \<open>c\<close>: the
  full count, or the bytes that were there on an open connection, or an error.
\<close>

definition read_result :: "nat \<Rightarrow> string \<Rightarrow> conn_status \<Rightarrow> int" where
  "read_result n p c =
     (if n \<le> length p then int n
      else case c of Open \<Rightarrow> int (length p) | _ \<Rightarrow> SOCKET_ERROR)"

context quiet_stream
begin

lemma recv_step:
  assumes "got < n" and "pending w s \<noteq> []" and "api_recv api s (n - got) w = (k, bs, w1)"
  shows "0 < k" "nat k \<le> n - got" "bs = take (nat k) (pending w s)" "length bs = nat k"
    "pending w1 = (pending w)(s := drop (nat k) (pending w s))" "status w1 = status w"
  using recv_data [OF assms(2) _ assms(3)] recv_quiet [OF assms(2) _ assms(3)] assms(1)
    recv_pos [OF assms(3)] by auto

lemma read_loop_quiet:
  assumes "got < n" and "n \<le> length buf"
  shows "\<exists>w'. read_loop pf api s n got buf w =
      Some (if n - got \<le> length (pending w s) then int n
            else (case status w s of Open \<Rightarrow> int (got + length (pending w s)) | _ \<Rightarrow> SOCKET_ERROR),
            overwrite buf got (take (n - got) (pending w s)), w') \<and>
    pending w' = (pending w)(s := drop (n - got) (pending w s)) \<and> status w' = status w"
  using assms
proof (induction "n - got" arbitrary: got buf w rule: less_induct)
  case less
  obtain k bs w1 where rc: "api_recv api s (n - got) w = (k, bs, w1)" by (metis prod_cases3)
  show ?case
  proof (cases "pending w s = []")
    case True
    have "(pending w)(s := []) = pending w" using True by auto
    with recv_empty [OF True _ rc] less.prems(1) True rc show ?thesis
      by (subst read_loop.simps)
        (auto simp: Let_def no_more_data_def SOCKET_ERROR_def split: conn_status.splits)
  next
    case False
    note d = recv_step [OF less.prems(1) False rc]
    show ?thesis
    proof (cases "got + nat k = n")
      case True
      then have nk: "nat k = n - got" by simp
      have "nat k \<le> length (pending w s)" using d(3,4) by auto
      with True nk d rc show ?thesis by (subst read_loop.simps) (simp add: Let_def)
    next
      case False
      with d(1,2) less.prems(1) have lt: "got + nat k < n" and
        less: "n - (got + nat k) < n - got" by linarith+
      let ?buf = "overwrite buf got bs"
      have kp: "nat k \<le> length (pending w s)" using d(3,4) by auto
      have len: "n \<le> length ?buf" using d(4) lt less.prems(2) by simp
      have ow: "overwrite ?buf (got + nat k) (take (n - (got + nat k)) (pending w1 s)) =
          overwrite buf got (take (n - got) (pending w s))"
        using overwrite_overwrite [of got buf bs "take (n - (got + nat k)) (pending w1 s)"]
          take_add [of "nat k" "n - (got + nat k)" "pending w s"] d lt less.prems by simp
      have dr: "drop (n - (got + nat k)) (pending w1 s) = drop (n - got) (pending w s)"
        using d(5) lt by simp
      from less.hyps [OF less lt len, of w1] obtain w' where
        rec: "read_loop pf api s n (got + nat k) ?buf w1 =
          Some (if n - (got + nat k) \<le> length (pending w1 s) then int n
            else (case status w1 s of Open \<Rightarrow> int (got + nat k + length (pending w1 s))
                  | _ \<Rightarrow> SOCKET_ERROR),
            overwrite ?buf (got + nat k) (take (n - (got + nat k)) (pending w1 s)), w')"
        and w': "pending w' = (pending w1)(s := drop (n - (got + nat k)) (pending w1 s))"
          "status w' = status w1" by blast
      have st: "status w1 s = status w s" "status w' = status w" using d(6) w'(2) by simp_all
      have cond: "n - (got + nat k) \<le> length (pending w1 s) \<longleftrightarrow> n - got \<le> length (pending w s)"
        and sum: "got + nat k + length (pending w1 s) = got + length (pending w s)"
        using kp lt d(5) by auto
      have pw: "pending w' = (pending w)(s := drop (n - got) (pending w s))"
        using w'(1) dr d(5) by simp
      show ?thesis
        using rec rc False d(1) st pw unfolding ow cond sum
        by (subst read_loop.simps) (simp add: Let_def)
    qed
  qed
qed

lemma read_async_quiet:
  assumes "0 < n" and "n \<le> length buf"
  obtains w' where "read_async pf api s buf n w =
      Some (read_result n (pending w s) (status w s), overwrite buf 0 (take n (pending w s)), w')"
    and "pending w' = (pending w)(s := drop n (pending w s))" and "status w' = status w"
  using read_loop_quiet [of 0 n buf s w, unfolded add_0 diff_zero] assms
  by (auto simp: read_async_def read_result_def)

end

section \<open>Sending\<close>

text \<open>The result is the length of the whole message or the error code, nothing in between.\<close>

lemma send_to_client_cases:
  obtains w' where "send_to_client api s m w = (int (length m), w')"
  | w' where "send_to_client api s m w = (SOCKET_ERROR, w')"
proof (cases "api_send api s m w")
  case (Pair k w')
  then show thesis
    using that(1) [of w'] that(2) [of w'] by (cases "k = int (length m)") (simp_all add: send_to_client_def)
qed

section \<open>Accepting\<close>

context descriptor_api
begin

lemma nonblocking_opened:
  assumes "set_client_socket_nonblocking pf api c w = (r, w')"
  shows "r = 0 \<and> opened w' = opened w \<or> r = SOCKET_ERROR \<and> opened w' = opened w - {c}"
proof (cases pf)
  case Win32
  obtain k w1 where i: "api_ioctl_nonblock api c w = (k, w1)" by fastforce
  show ?thesis
    using assms close_opened [of c w1] ioctl_opened [OF i]
    by (cases "k = 0") (simp_all add: set_client_socket_nonblocking_def Win32 i)
next
  case Posix
  obtain fl w1 where g: "api_fcntl_getfl api c w = (fl, w1)" by fastforce
  obtain k w2 where t: "api_fcntl_setfl api c (fl OR api_O_NONBLOCK api) w1 = (k, w2)" by fastforce
  show ?thesis
    using assms close_opened [of c w2] getfl_opened [OF g] setfl_opened [OF t]
    by (cases "k = -1") (simp_all add: set_client_socket_nonblocking_def Posix g t)
qed

text \<open>A successful accept yields a descriptor that was not in use; a failed one leaves the
  descriptors in use as they were.\<close>

lemma tcp_accept_client_opened:
  assumes "tcp_accept_client pf api s w = (r, w')" and "SOCKET_ERROR \<notin> opened w"
  shows "r = SOCKET_ERROR \<and> opened w' = opened w \<or>
     0 \<le> r \<and> r \<notin> opened w \<and> opened w' = insert r (opened w)"
proof -
  obtain c w1 where a: "api_accept api s w = (c, w1)" by fastforce
  obtain e w2 where n: "set_client_socket_nonblocking pf api c w1 = (e, w2)" by fastforce
  have r: "r = (if e = 0 then c else e)" "w' = w2"
    using assms(1) a n by (auto simp: tcp_accept_client_def split: if_splits)
  consider (ok) "e = 0" "opened w2 = opened w1" | (bad) "e = SOCKET_ERROR" "opened w2 = opened w1 - {c}"
    using nonblocking_opened [OF n] by blast
  then show ?thesis
    using accept_opened [OF a] r assms(2) by cases (auto simp: SOCKET_ERROR_def)
qed

end

section \<open>The descriptor set\<close>

context fd_set_api
begin

lemma fd_set_loop_max: "snd (fd_set_loop api sds fd m) = foldl max m sds"
  by (induction sds arbitrary: fd m) (auto simp: max_def)

lemma fd_set_loop_array:
  assumes "distinct (api_fd_array api fd @ sds)"
  shows "api_fd_array api (fst (fd_set_loop api sds fd m)) =
    api_fd_array api fd @ take (cap - length (api_fd_array api fd)) sds"
  using assms
proof (induction sds arbitrary: fd m)
  case Nil
  then show ?case by simp
next
  case (Cons sd sds)
  show ?case
  proof (cases "cap \<le> length (api_fd_array api fd)")
    case True
    then have "api_fd_array api (api_FD_SET api sd fd) = api_fd_array api fd" by (simp add: fd_set)
    with Cons True show ?thesis by simp
  next
    case False
    then have a: "api_fd_array api (api_FD_SET api sd fd) = api_fd_array api fd @ [sd]"
      using Cons.prems by (simp add: fd_set)
    have "cap - length (api_fd_array api fd) = Suc (cap - Suc (length (api_fd_array api fd)))"
      using False by simp
    with a Cons show ?thesis by simp
  qed
qed

text \<open>The set holds the listening socket and the clients in their order, cut off at the
  capacity; the number handed to \<^verbatim>\<open>select\<close> is the maximum of all of them.\<close>

lemma reset_fd_set_ok:
  assumes "distinct (server # clients)" and "0 < cap"
  shows "api_fd_array api (fst (reset_fd_set api fd server clients)) = take cap (server # clients)"
    and "snd (reset_fd_set api fd server clients) = foldl max server clients"
proof -
  have a: "api_fd_array api (api_FD_SET api server (api_FD_ZERO api fd)) = [server]"
    using assms(2) by (simp add: fd_set fd_zero)
  show "api_fd_array api (fst (reset_fd_set api fd server clients)) = take cap (server # clients)"
    using assms fd_set_loop_array [of "api_FD_SET api server (api_FD_ZERO api fd)" clients server]
    by (cases cap) (auto simp: reset_fd_set_def a)
  show "snd (reset_fd_set api fd server clients) = foldl max server clients"
    by (simp add: reset_fd_set_def fd_set_loop_max)
qed

end

end
