(* ===== verification/Router_Handlers.thy ===== *)
theory Router_Handlers
  imports Router_Message Sessions_Table Signaling_Queue Tcp_Server
begin

text \<open>
  The class \<^verbatim>\<open>Router\<close> (\<^verbatim>\<open>router/src/router.cpp\<close>): the read handler with its handshake and
  message branches, the write handler, one pass of the event loop, start-up and \<^verbatim>\<open>main\<close>. The
  state is the static state of \<^verbatim>\<open>Sessions\<close> and \<^verbatim>\<open>Router\<close> and the world. The handlers are
  given here as one thread runs them; \<open>Router_Threads\<close> interleaves them. They call
  \<^verbatim>\<open>removeSession\<close> without owning \<^verbatim>\<open>sessions_mutex_\<close>, so that call is
  \<open>remove_locked\<close> (\<open>removeSession_free\<close>). A result \<open>None\<close> of a
  handler stands for not returning, \<open>Inl e\<close> for an exception that leaves the handler.
\<close>

section \<open>The code\<close>

definition RECV_BUFF_SIZE :: nat where
  "RECV_BUFF_SIZE = 32 * 3000"

text \<open>\<^verbatim>\<open>sleep\<close>, which this program defines and never calls.\<close>

definition router_sleep :: "platform \<Rightarrow> ('w, 'x) client_api_scheme \<Rightarrow> int \<Rightarrow> 'w \<Rightarrow> 'w" where
  "router_sleep pf api milliseconds w =
     (case pf of
        Win32 \<Rightarrow> api_Sleep api milliseconds w
      | Posix \<Rightarrow> api_usleep api (milliseconds * 1000) w)"

record 'w router =
  sess :: sessions
  read_queue :: "sock squeue"
  write_queue :: "(sock \<times> string) squeue"
  world :: 'w

definition forward :: "ref \<Rightarrow> string \<Rightarrow> 'w router \<Rightarrow> 'w router" where
  "forward dst_session msg R =
     (case session_socket (sess R) dst_session of
        None \<Rightarrow> R
      | Some dst_socket \<Rightarrow> R\<lparr>write_queue := push (dst_socket, msg) False (write_queue R)\<rparr>)"

definition handle_handshake ::
    "platform \<Rightarrow> ('w, 'x) sock_api_scheme \<Rightarrow> sock \<Rightarrow> buffer \<Rightarrow> 'w router \<Rightarrow>
     (int \<times> buffer \<times> 'w router) outcome option" where
  "handle_handshake pf api ready_read_socket recv_buffer R =
     (case read_async pf api ready_read_socket recv_buffer ID_MESSAGE_SIZE (world R) of
        None \<Rightarrow> None
      | Some (bytes_read, buf, w) \<Rightarrow>
          let R1 = R\<lparr>world := w\<rparr> in
          if bytes_read = int ID_MESSAGE_SIZE then
            let buf1 = buf[ID_MESSAGE_SIZE := NUL] in
            (case extract_src_id buf1 bytes_read of
               Inl e \<Rightarrow> Some (Inl e)
             | Inr src_id \<Rightarrow>
                 Some (Inr (bytes_read, buf1,
                   R1\<lparr>sess := add_node ready_read_socket src_id (sess R1)\<rparr>)))
          else Some (Inr (bytes_read, buf, R1)))"

definition process_message ::
    "platform \<Rightarrow> ('w, 'x) sock_api_scheme \<Rightarrow> sock \<Rightarrow> buffer \<Rightarrow> 'w router \<Rightarrow>
     (int \<times> buffer \<times> 'w router) outcome option" where
  "process_message pf api ready_read_socket recv_buffer R =
     (case read_async pf api ready_read_socket recv_buffer DATA_MESSAGE_SIZE (world R) of
        None \<Rightarrow> None
      | Some (bytes_read, buf, w) \<Rightarrow>
          let R1 = R\<lparr>world := w\<rparr> in
          if bytes_read = int DATA_MESSAGE_SIZE then
            let buf1 = buf[DATA_MESSAGE_SIZE := NUL] in
            (case extract_dst_id buf1 bytes_read of
               Inl e \<Rightarrow> Some (Inl e)
             | Inr dst_id \<Rightarrow>
                 (case find_session_by_id dst_id (sess R1) of
                    None \<Rightarrow> Some (Inr (0, buf1, R1))
                  | Some dst_session \<Rightarrow>
                      let msg = take DATA_MESSAGE_SIZE buf1
                      in Some (Inr (bytes_read, buf1, forward dst_session msg R1))))
          else Some (Inr (bytes_read, buf, R1)))"

text \<open>The \<^verbatim>\<open>do ... while (bytes_read > 0)\<close> loop of \<^verbatim>\<open>do_reads\<close>; the identifier is read from
  the session object before every turn.\<close>

partial_function (option) reads_loop ::
    "platform \<Rightarrow> ('w, 'x) sock_api_scheme \<Rightarrow> sock \<Rightarrow> ref \<Rightarrow> buffer \<Rightarrow> 'w router \<Rightarrow>
     (int \<times> buffer \<times> 'w router) outcome option" where
  "reads_loop pf api ready_read_socket src_session recv_buffer R =
     Option.bind
       (if session_id (sess R) src_session = NONE
        then handle_handshake pf api ready_read_socket recv_buffer R
        else process_message pf api ready_read_socket recv_buffer R)
       (\<lambda>res. case res of
          Inl e \<Rightarrow> Some (Inl e)
        | Inr (bytes_read, buf, R1) \<Rightarrow>
            if bytes_read > 0 then reads_loop pf api ready_read_socket src_session buf R1
            else Some (Inr (bytes_read, buf, R1)))"

definition do_reads ::
    "platform \<Rightarrow> ('w, 'x) sock_api_scheme \<Rightarrow> sock \<Rightarrow> buffer \<Rightarrow> 'w router \<Rightarrow>
     (buffer \<times> 'w router) outcome option" where
  "do_reads pf api ready_read_socket recv_buffer R =
     (case find_session_by_socket ready_read_socket (sess R) of
        None \<Rightarrow> Some (Inr (recv_buffer, R))
      | Some _ \<Rightarrow>
          (case find_session_by_socket ready_read_socket (sess R) of
             None \<Rightarrow> Some (Inr (recv_buffer, R))
           | Some src_session \<Rightarrow>
               (case reads_loop pf api ready_read_socket src_session recv_buffer R of
                  None \<Rightarrow> None
                | Some (Inl e) \<Rightarrow> Some (Inl e)
                | Some (Inr (bytes_read, buf, R1)) \<Rightarrow>
                    if bytes_read = SOCKET_ERROR
                    then Some (Inr (buf, R1\<lparr>sess := remove_locked ready_read_socket (sess R1)\<rparr>))
                    else Some (Inr (buf, R1)))))"

definition do_writes ::
    "('w, 'x) sock_api_scheme \<Rightarrow> sock \<times> string \<Rightarrow> 'w router \<Rightarrow> 'w router" where
  "do_writes api task R =
     (let dst_socket = fst task; msg = snd task in
      case find_session_by_socket dst_socket (sess R) of
        None \<Rightarrow> R
      | Some dst_session \<Rightarrow>
          (case send_to_client api dst_socket msg (world R) of (sent_byte, w) \<Rightarrow>
             let R1 = R\<lparr>world := w\<rparr> in
             if sent_byte = int (length msg) then R1
             else if sent_byte = SOCKET_ERROR then
               (case session_socket (sess R1) dst_session of
                  None \<Rightarrow> R1
                | Some s \<Rightarrow> R1\<lparr>sess := remove_locked s (sess R1)\<rparr>)
             else R1))"

text \<open>One pass of the event loop. The result carries the descriptor set, which the next pass
  clears and refills.\<close>

fun push_ready :: "sock \<Rightarrow> sock list \<Rightarrow> sock squeue \<Rightarrow> sock squeue" where
  "push_ready server_socket [] q = q"
| "push_ready server_socket (s # ss) q =
     push_ready server_socket ss (if s \<noteq> server_socket then push s True q else q)"

definition event_pass ::
    "platform \<Rightarrow> ('w, 'f, 'x) server_api_scheme \<Rightarrow> sock \<Rightarrow> 'f \<Rightarrow> 'w router \<Rightarrow>
     lock_error + ('f \<times> 'w router)" where
  "event_pass pf api server_socket fds R =
     (case reset_fd_set api fds server_socket (get_accpeted_sockets (sess R)) of (fds1, max_sd) \<Rightarrow>
      case api_select api (max_sd + 1) fds1 (world R) of (activity, readfds, w1) \<Rightarrow>
      let R1 = R\<lparr>world := w1\<rparr> in
      if activity = SOCKET_ERROR then Inr (readfds, R1)
      else
        let ready = take (nat activity) (api_fd_array api readfds);
            events = (\<lambda>R'. R'\<lparr>read_queue := push_ready server_socket ready (read_queue R')\<rparr>)
        in if api_FD_ISSET api server_socket readfds then
             (case tcp_accept_client pf api server_socket (world R1) of (new_client_socket, w2) \<Rightarrow>
              let R2 = R1\<lparr>world := w2\<rparr> in
              if new_client_socket = SOCKET_ERROR then Inr (readfds, R2)
              else (case accept_client new_client_socket (sess R2) of
                      Inl e \<Rightarrow> Inl e
                    | Inr st \<Rightarrow> Inr (readfds, events (R2\<lparr>sess := st\<rparr>))))
           else Inr (readfds, events R1))"

section \<open>Start-up\<close>

datatype worker = Read_worker nat | Write_worker nat

definition read_thread_count :: "32 word \<Rightarrow> nat" where
  "read_thread_count thread_count =
     (if unat thread_count mod 2 = 1 then unat thread_count div 2 + 1 else unat thread_count div 2)"

definition spawn_workers :: "32 word \<Rightarrow> worker list" where
  "spawn_workers thread_count =
     map Read_worker [0..<read_thread_count thread_count] @
     map Write_worker [read_thread_count thread_count..<unat thread_count]"

text \<open>
  How \<^verbatim>\<open>Router::start\<close> ends: in the event loop, which it never leaves, or with the listening
  socket not open. Then it returns \<open>-1\<close>, which destroys the vector of threads; destroying a
  joinable \<^verbatim>\<open>std::thread\<close> calls \<^verbatim>\<open>std::terminate\<close>.
\<close>

datatype 'w start_result =
  Event_loop sock "worker list" "'w router" | Returned int 'w | Std_terminate 'w

definition Router_start ::
    "platform \<Rightarrow> ('w, 'f, 'x) server_api_scheme \<Rightarrow> 32 word \<Rightarrow> 32 word \<Rightarrow> 'w router \<Rightarrow>
     'w start_result" where
  "Router_start pf api thread_count port R =
     (let threads = spawn_workers thread_count;
          R1 = R\<lparr>sess := init_sessions MAX_CLIENTS_COUNT (sess R)\<rparr>
      in case start_tcp_server pf api (sint port) (world R1) of (server_socket, w) \<Rightarrow>
           if server_socket = SOCKET_ERROR
           then (if threads = [] then Returned (-1) w else Std_terminate w)
           else Event_loop server_socket threads (R1\<lparr>world := w\<rparr>))"

definition THREAD_COUNT :: "32 word" where
  "THREAD_COUNT = 4"

definition router0 :: "'w \<Rightarrow> 'w router" where
  "router0 w = \<lparr>sess = sessions0, read_queue = squeue0, write_queue = squeue0, world = w\<rparr>"

text \<open>\<^verbatim>\<open>main\<close>: the exit code, or what \<^verbatim>\<open>Router::start\<close> does. An exception of
  \<^verbatim>\<open>std::stoi\<close> is reported and the exit code is 0.\<close>

definition router_main ::
    "platform \<Rightarrow> ('w, 'f, 'x) server_api_scheme \<Rightarrow> string list \<Rightarrow> 'w \<Rightarrow> int + 'w start_result" where
  "router_main pf api argv w =
     (if length argv \<noteq> 2 then Inl 1
      else case stoi (argv ! 1) of
             Inl e \<Rightarrow> Inl 0
           | Inr router_port \<Rightarrow>
               (case Router_start pf api THREAD_COUNT (word_of_int router_port) (router0 w) of
                  Returned _ _ \<Rightarrow> Inl 0
                | res \<Rightarrow> Inr res))"

end
