(* ===== verification/Router_Reads.thy ===== *)
theory Router_Reads
  imports Router_Handlers
begin

text \<open>
  What a run of \<^verbatim>\<open>do_reads\<close> achieves on the bytes that have arrived. The specification
  \<open>reads_spec\<close> works on the table of connections and routes and on the pending bytes only: while
  the connection has no identifier it takes three bytes at a time as identifiers, afterwards it
  takes frames of 32 bytes and sends each to the socket its destination is routed to. The
  refinement lemma states that the code's loop, with its buffers, partial reads and shared
  session objects, terminates and computes exactly this.
\<close>

section \<open>The specification\<close>

definition frame_size :: "table \<Rightarrow> sock \<Rightarrow> nat" where
  "frame_size t s = (if conns t s = Some NONE then 3 else 32)"

function reads_spec ::
    "conn_status \<Rightarrow> sock \<Rightarrow> string \<Rightarrow> table \<Rightarrow> table \<times> (sock \<times> string) list \<times> string \<times> int" where
  "reads_spec c s p t =
     (if length p < frame_size t s then (t, [], [], if c = Open then 0 else SOCKET_ERROR)
      else if conns t s = Some NONE then
        reads_spec c s (drop 3 p) (tbl_add s (parse_id (take 3 p)) t)
      else (case routes t (parse_id (drop 29 (take 32 p))) of
              None \<Rightarrow> (t, [], drop 32 p, 0)
            | Some d \<Rightarrow>
                (case reads_spec c s (drop 32 p) t of
                   (t', out, rest, r) \<Rightarrow> (t', (d, take 32 p) # out, rest, r))))"
  by pat_completeness auto
termination
  by (relation "measure (\<lambda>(c, s, p, t). length p)") (auto simp: frame_size_def split: if_splits)

declare reads_spec.simps [simp del]

section \<open>One turn of the loop\<close>

lemma terminated_buffer:
  assumes "length f = n" and "n < length buf"
  shows "(overwrite buf 0 f)[n := NUL] = f @ NUL # drop (Suc n) buf"
proof -
  have "drop n buf = buf ! n # drop (Suc n) buf" using assms(2) by (simp add: Cons_nth_drop_Suc)
  with assms show ?thesis by (simp add: overwrite_def list_update_append)
qed

text \<open>The table seen through the code's lookups.\<close>

lemma find_by_id_routes:
  assumes "sessions_inv st"
  shows "find_session_by_id i st = None \<longleftrightarrow> routes (table_of st) i = None"
    and "find_session_by_id i st = Some r \<Longrightarrow> session_socket st r = routes (table_of st) i"
  using sessions_inv_id_store [OF assms, of i]
  by (cases "sessions_by_id st i"; auto simp: find_session_by_id_def routes_table_of
      session_socket_def get_socket_def)+

lemma frame_size_session:
  assumes "sessions_inv st" and "sessions_by_socket st s = Some r"
  shows "conns (table_of st) s = Some NONE \<longleftrightarrow> session_id st r = NONE"
  using conns_session_id [OF assms] by simp

text \<open>
  What the loop keeps fixed: the invariant of the tables, the pointer it found for its socket,
  the read queue, the pending bytes of the other sockets, the status of all connections and the
  size of the buffer.
\<close>

definition reading ::
    "('w \<Rightarrow> sock \<Rightarrow> string) \<Rightarrow> ('w \<Rightarrow> sock \<Rightarrow> conn_status) \<Rightarrow> sock \<Rightarrow> ref \<Rightarrow> buffer \<Rightarrow> 'w router \<Rightarrow>
     buffer \<Rightarrow> 'w router \<Rightarrow> bool" where
  "reading pending status s r buf R buf' R' \<longleftrightarrow>
     sessions_inv (sess R') \<and> sessions_by_socket (sess R') s = Some r \<and>
     read_queue R' = read_queue R \<and> length buf' = length buf \<and>
     (\<forall>t. t \<noteq> s \<longrightarrow> pending (world R') t = pending (world R) t) \<and>
     status (world R') = status (world R)"

lemma reading_trans:
  "reading pending status s r buf R buf1 R1 \<Longrightarrow> reading pending status s r buf1 R1 buf2 R2 \<Longrightarrow>
   reading pending status s r buf R buf2 R2"
  by (simp add: reading_def)

lemma forward_queue:
  assumes "session_socket (sess R) r = Some d"
  shows "m_queue (write_queue (forward r m R)) = m_queue (write_queue R) @ [(d, m)]"
    and "sess (forward r m R) = sess R" and "read_queue (forward r m R) = read_queue R"
    and "world (forward r m R) = world R"
  using assms by (simp_all add: forward_def m_queue_push)

context quiet_stream
begin

lemma handshake_turn:
  assumes inv: "sessions_inv (sess R)" and r: "sessions_by_socket (sess R) s = Some r"
    and none: "session_id (sess R) r = NONE" and len: "32 < length buf"
  defines "p \<equiv> pending (world R) s"
  shows "\<exists>buf' R'. handle_handshake pf api s buf R =
      Some (Inr (read_result 3 p (status (world R) s), buf', R')) \<and>
    reading pending status s r buf R buf' R' \<and> pending (world R') s = drop 3 p \<and>
    write_queue R' = write_queue R \<and>
    table_of (sess R') =
      (if 3 \<le> length p then tbl_add s (parse_id (take 3 p)) (table_of (sess R))
       else table_of (sess R))"
proof -
  obtain w' where w': "read_async pf api s buf 3 (world R) =
      Some (read_result 3 p (status (world R) s), overwrite buf 0 (take 3 p), w')"
    "pending w' = (pending (world R))(s := drop 3 p)" "status w' = status (world R)"
    using read_async_quiet [of 3 buf s "world R"] len by (auto simp: p_def)
  show ?thesis
  proof (cases "3 \<le> length p")
    case True
    let ?buf = "take 3 p @ NUL # drop 4 buf"
    let ?st = "add_node s (parse_id (take 3 p)) (sess R)"
    have b: "(overwrite buf 0 (take 3 p))[3 := NUL] = ?buf"
      using terminated_buffer [of "take 3 p" 3 buf] True len by simp
    have "sessions_inv ?st"
      using inv none r by (intro add_node_inv) auto
    moreover have "sessions_by_socket ?st s = Some r" using r by (simp add: add_node_def)
    moreover have "read_result 3 p (status (world R) s) = 3" using True by (simp add: read_result_def)
    ultimately show ?thesis
      using w' True b len add_node_table [OF inv]
      by (simp add: handle_handshake_def ID_MESSAGE_SIZE_def extract_src_id_parse reading_def)
  next
    case False
    then have "read_result 3 p (status (world R) s) \<noteq> 3"
      by (auto simp: read_result_def SOCKET_ERROR_def split: conn_status.splits)
    with w' False inv r len show ?thesis
      by (simp add: handle_handshake_def ID_MESSAGE_SIZE_def reading_def)
  qed
qed

lemma message_turn:
  assumes inv: "sessions_inv (sess R)" and r: "sessions_by_socket (sess R) s = Some r"
    and len: "32 < length buf"
  defines "p \<equiv> pending (world R) s"
  defines "dst \<equiv> routes (table_of (sess R)) (parse_id (drop 29 (take 32 p)))"
  shows "\<exists>buf' R'. process_message pf api s buf R =
      Some (Inr (if 32 \<le> length p \<and> dst = None then 0
        else read_result 32 p (status (world R) s), buf', R')) \<and>
    reading pending status s r buf R buf' R' \<and> pending (world R') s = drop 32 p \<and>
    table_of (sess R') = table_of (sess R) \<and>
    m_queue (write_queue R') = m_queue (write_queue R) @
      (if 32 \<le> length p then (case dst of None \<Rightarrow> [] | Some d \<Rightarrow> [(d, take 32 p)]) else [])"
proof -
  obtain w' where w': "read_async pf api s buf 32 (world R) =
      Some (read_result 32 p (status (world R) s), overwrite buf 0 (take 32 p), w')"
    "pending w' = (pending (world R))(s := drop 32 p)" "status w' = status (world R)"
    using read_async_quiet [of 32 buf s "world R"] len by (auto simp: p_def)
  show ?thesis
  proof (cases "32 \<le> length p")
    case True
    let ?buf = "take 32 p @ NUL # drop 33 buf"
    have b: "(overwrite buf 0 (take 32 p))[32 := NUL] = ?buf"
      using terminated_buffer [of "take 32 p" 32 buf] True len by simp
    have rr: "read_result 32 p (status (world R) s) = 32" using True by (simp add: read_result_def)
    let ?R1 = "R\<lparr>world := w'\<rparr>"
    have x: "extract_dst_id ?buf 32 = Inr (parse_id (drop 29 (take 32 p)))"
      using True by (simp add: extract_dst_id_parse)
    have tk: "take 32 ?buf = take 32 p" using True by simp
    show ?thesis
    proof (cases "find_session_by_id (parse_id (drop 29 (take 32 p))) (sess R)")
      case None
      then have "dst = None" by (simp add: dst_def find_by_id_routes(1) [OF inv])
      with None True w' b rr x inv r len show ?thesis
        by (simp add: process_message_def DATA_MESSAGE_SIZE_def reading_def)
    next
      case (Some d)
      then have sd: "session_socket (sess ?R1) d = dst" and "dst \<noteq> None"
        using find_by_id_routes(2) [OF inv Some]
        by (simp_all add: dst_def flip: find_by_id_routes(1) [OF inv])
      then obtain y where y: "dst = Some y" by auto
      note f = forward_queue [OF sd [unfolded y], of "take 32 p"]
      show ?thesis
        using Some True w' b rr x inv r len f y tk
        by (simp add: process_message_def DATA_MESSAGE_SIZE_def reading_def Let_def del: take_append)
    qed
  next
    case False
    then have "read_result 32 p (status (world R) s) \<noteq> 32"
      by (auto simp: read_result_def SOCKET_ERROR_def split: conn_status.splits)
    with w' False inv r len show ?thesis
      by (simp add: process_message_def DATA_MESSAGE_SIZE_def reading_def)
  qed
qed

end

section \<open>The loop\<close>

lemma reads_spec_short:
  "length p < frame_size t s \<Longrightarrow>
   reads_spec c s p t = (t, [], [], if c = Open then 0 else SOCKET_ERROR)"
  by (simp add: reads_spec.simps)

lemma reads_spec_handshake:
  "conns t s = Some NONE \<Longrightarrow> 3 \<le> length p \<Longrightarrow>
   reads_spec c s p t = reads_spec c s (drop 3 p) (tbl_add s (parse_id (take 3 p)) t)"
  by (subst reads_spec.simps) (simp add: frame_size_def)

lemma reads_spec_frame:
  "conns t s \<noteq> Some NONE \<Longrightarrow> 32 \<le> length p \<Longrightarrow>
   reads_spec c s p t =
     (case routes t (parse_id (drop 29 (take 32 p))) of
        None \<Rightarrow> (t, [], drop 32 p, 0)
      | Some d \<Rightarrow> (case reads_spec c s (drop 32 p) t of
                     (t', out, rest, r) \<Rightarrow> (t', (d, take 32 p) # out, rest, r)))"
  by (subst reads_spec.simps) (simp add: frame_size_def)

lemmas reads_spec_simps = reads_spec_short reads_spec_handshake reads_spec_frame

lemma reads_loop_step:
  assumes "(if session_id (sess R) r = NONE then handle_handshake pf api s buf R
            else process_message pf api s buf R) = Some (Inr (k, buf1, R1))"
  shows "reads_loop pf api s r buf R =
    (if k > 0 then reads_loop pf api s r buf1 R1 else Some (Inr (k, buf1, R1)))"
  using assms by (subst reads_loop.simps) simp

text \<open>What one turn of the loop must have returned for the loop to return.\<close>

lemma bind_turn:
  assumes "Option.bind t (\<lambda>res. case res of Inl e \<Rightarrow> Some (Inl e)
      | Inr (k, buf, R1) \<Rightarrow> if 0 < k then f buf R1 else Some (Inr (k, buf, R1))) = Some (Inr y)"
  obtains k buf R1 where "t = Some (Inr (k, buf, R1))"
    and "(if 0 < (k :: int) then f buf R1 else Some (Inr (k, buf, R1))) = Some (Inr y)"
proof (cases t)
  case (Some res)
  with assms that show ?thesis by (cases res) auto
qed (use assms in simp)

context quiet_stream
begin

text \<open>The state the loop ends in agrees with a result of the specification.\<close>

definition agrees ::
    "sock \<Rightarrow> ref \<Rightarrow> buffer \<Rightarrow> 'w router \<Rightarrow> table \<times> (sock \<times> string) list \<times> string \<times> int \<Rightarrow> bool" where
  "agrees s r buf R spec \<longleftrightarrow>
     (case spec of (t', out, rest, k) \<Rightarrow>
        \<exists>buf' R'. reads_loop pf api s r buf R = Some (Inr (k, buf', R')) \<and>
          reading pending status s r buf R buf' R' \<and> table_of (sess R') = t' \<and>
          m_queue (write_queue R') = m_queue (write_queue R) @ out \<and> pending (world R') s = rest)"

lemma agrees_turn:
  assumes turn: "(if session_id (sess R) r = NONE then handle_handshake pf api s buf R
            else process_message pf api s buf R) = Some (Inr (k, buf1, R1))" and "0 < k"
    and rd: "reading pending status s r buf R buf1 R1"
    and wq: "m_queue (write_queue R1) = m_queue (write_queue R) @ out1"
    and IH: "agrees s r buf1 R1 (t', out, rest, k')"
  shows "agrees s r buf R (t', out1 @ out, rest, k')"
  using IH reads_loop_step [OF turn] \<open>0 < k\<close> reading_trans [OF rd] wq
  unfolding agrees_def by fastforce

lemma agrees_stop:
  assumes turn: "(if session_id (sess R) r = NONE then handle_handshake pf api s buf R
            else process_message pf api s buf R) = Some (Inr (k, buf1, R1))" and "\<not> 0 < k"
    and "reading pending status s r buf R buf1 R1" and "table_of (sess R1) = t'"
    and "m_queue (write_queue R1) = m_queue (write_queue R) @ out" and "pending (world R1) s = rest"
  shows "agrees s r buf R (t', out, rest, k)"
  using assms reads_loop_step [OF turn] by (auto simp: agrees_def)

lemma refines_handshake:
  assumes inv: "sessions_inv (sess R)" and r: "sessions_by_socket (sess R) s = Some r"
    and len: "32 < length buf" and id: "session_id (sess R) r = NONE"
    and p: "p = pending (world R) s" and c: "c = status (world R) s" and t: "t = table_of (sess R)"
    and IH: "\<And>buf1 R1. reading pending status s r buf R buf1 R1 \<Longrightarrow>
      length (pending (world R1) s) < length p \<Longrightarrow>
      agrees s r buf1 R1 (reads_spec c s (pending (world R1) s) (table_of (sess R1)))"
  shows "agrees s r buf R (reads_spec c s p t)"
proof -
  have none: "conns t s = Some NONE" using frame_size_session [OF inv r] id by (simp add: t)
  obtain buf1 R1 where
    h: "handle_handshake pf api s buf R = Some (Inr (read_result 3 p c, buf1, R1))"
    and rd: "reading pending status s r buf R buf1 R1" and p1: "pending (world R1) s = drop 3 p"
    and wq: "m_queue (write_queue R1) = m_queue (write_queue R) @ []"
    and t1: "table_of (sess R1) = (if 3 \<le> length p then tbl_add s (parse_id (take 3 p)) t else t)"
    using handshake_turn [OF inv r id len] by (auto simp: p c t)
  show ?thesis
  proof (cases "0 < read_result 3 p c")
    case pos: True
    then have "p \<noteq> []" by (cases c) (auto simp: read_result_def SOCKET_ERROR_def)
    with p1 have "length (pending (world R1) s) < length p" by (cases p) auto
    from IH [OF rd this]
    have "agrees s r buf1 R1 (reads_spec c s (drop 3 p) (table_of (sess R1)))" by (simp add: p1)
    moreover have "reads_spec c s p t = reads_spec c s (drop 3 p) (table_of (sess R1))"
    proof (cases "3 \<le> length p")
      case False
      with pos none show ?thesis
        by (cases c) (auto simp: t1 reads_spec_short frame_size_def read_result_def SOCKET_ERROR_def)
    qed (simp add: t1 reads_spec_handshake [OF none])
    ultimately show ?thesis
      using agrees_turn [of R r s buf, OF _ pos rd wq] h id
      by (cases "reads_spec c s (drop 3 p) (table_of (sess R1))") auto
  next
    case False
    then have "length p < 3" by (auto simp: read_result_def split: if_splits)
    moreover have "read_result 3 p c = (if c = Open then 0 else SOCKET_ERROR)"
      using False \<open>length p < 3\<close> by (cases c) (auto simp: read_result_def)
    ultimately show ?thesis
      using agrees_stop [of R r s buf, OF _ False rd _ wq] h id p1 t1 none
      by (simp add: reads_spec_short frame_size_def)
  qed
qed

lemma refines_message:
  assumes inv: "sessions_inv (sess R)" and r: "sessions_by_socket (sess R) s = Some r"
    and len: "32 < length buf" and id: "session_id (sess R) r \<noteq> NONE"
    and p: "p = pending (world R) s" and c: "c = status (world R) s" and t: "t = table_of (sess R)"
    and IH: "\<And>buf1 R1. reading pending status s r buf R buf1 R1 \<Longrightarrow>
      length (pending (world R1) s) < length p \<Longrightarrow>
      agrees s r buf1 R1 (reads_spec c s (pending (world R1) s) (table_of (sess R1)))"
  shows "agrees s r buf R (reads_spec c s p t)"
proof -
  have none: "conns t s \<noteq> Some NONE" using frame_size_session [OF inv r] id by (simp add: t)
  define dst where "dst = routes t (parse_id (drop 29 (take 32 p)))"
  define k where "k = (if 32 \<le> length p \<and> dst = None then 0 else read_result 32 p c)"
  define out where
    "out = (if 32 \<le> length p then (case dst of None \<Rightarrow> [] | Some d \<Rightarrow> [(d, take 32 p)]) else [])"
  obtain buf1 R1 where
    h: "process_message pf api s buf R = Some (Inr (k, buf1, R1))"
    and rd: "reading pending status s r buf R buf1 R1" and p1: "pending (world R1) s = drop 32 p"
    and t1: "table_of (sess R1) = t"
    and wq: "m_queue (write_queue R1) = m_queue (write_queue R) @ out"
    using message_turn [OF inv r len] unfolding p [symmetric] c [symmetric] t [symmetric]
      dst_def [symmetric] k_def [symmetric] out_def [symmetric] by blast
  show ?thesis
  proof (cases "0 < k")
    case pos: True
    then have "p \<noteq> []"
      by (cases c) (auto simp: k_def read_result_def SOCKET_ERROR_def split: if_splits)
    with p1 have "length (pending (world R1) s) < length p" by (cases p) auto
    from IH [OF rd this]
    have rec: "agrees s r buf1 R1 (reads_spec c s (drop 32 p) t)" by (simp add: p1 t1)
    obtain t' o' rest k' where sp: "reads_spec c s (drop 32 p) t = (t', o', rest, k')"
      by (metis prod_cases4)
    have "32 \<le> length p \<and> dst \<noteq> None \<or> length p < 32 \<and> c = Open"
      using pos by (cases c) (auto simp: k_def read_result_def SOCKET_ERROR_def split: if_splits)
    then have "reads_spec c s p t = (t', out @ o', rest, k')"
      using sp none by (auto simp: out_def reads_spec_frame dst_def reads_spec_short frame_size_def)
    with agrees_turn [of R r s buf, OF _ pos rd wq rec [unfolded sp]] h id show ?thesis by simp
  next
    case stop: False
    then have "32 \<le> length p \<and> dst = None \<or> length p < 32"
      by (auto simp: k_def read_result_def split: if_splits)
    then have "reads_spec c s p t = (t, out, drop 32 p, k)"
      using stop none by (cases c) (auto simp: out_def k_def reads_spec_frame dst_def
        reads_spec_short frame_size_def read_result_def)
    with agrees_stop [of R r s buf, OF _ stop rd t1 wq p1] h id show ?thesis by simp
  qed
qed

lemma reads_loop_refines:
  assumes "sessions_inv (sess R)" and "sessions_by_socket (sess R) s = Some r"
    and "32 < length buf"
  shows "agrees s r buf R
    (reads_spec (status (world R) s) s (pending (world R) s) (table_of (sess R)))"
  using assms
proof (induction "length (pending (world R) s)" arbitrary: R buf rule: less_induct)
  case less
  have IH: "agrees s r buf1 R1
      (reads_spec (status (world R) s) s (pending (world R1) s) (table_of (sess R1)))"
    if "reading pending status s r buf R buf1 R1"
      "length (pending (world R1) s) < length (pending (world R) s)" for buf1 R1
    using less.hyps [of R1 buf1] that less.prems(3) by (simp add: reading_def)
  show ?case
    using refines_handshake [OF less.prems _ refl refl refl IH]
      refines_message [OF less.prems _ refl refl refl IH]
    by (cases "session_id (sess R) r = NONE") blast+
qed

end

section \<open>The handler\<close>

definition do_reads_spec ::
    "conn_status \<Rightarrow> sock \<Rightarrow> string \<Rightarrow> table \<Rightarrow> table \<times> (sock \<times> string) list \<times> string" where
  "do_reads_spec c s p t =
     (case reads_spec c s p t of
        (t', out, rest, k) \<Rightarrow> (if k = SOCKET_ERROR then tbl_remove s t' else t', out, rest))"

context quiet_stream
begin

lemma do_reads_refines:
  assumes inv: "sessions_inv (sess R)" and r: "sessions_by_socket (sess R) s = Some r"
    and len: "32 < length buf"
    and spec: "do_reads_spec (status (world R) s) s (pending (world R) s) (table_of (sess R)) =
      (t', out, rest)"
  obtains buf' R' where "do_reads pf api s buf R = Some (Inr (buf', R'))"
    and "sessions_inv (sess R')" and "table_of (sess R') = t'"
    and "m_queue (write_queue R') = m_queue (write_queue R) @ out"
    and "read_queue R' = read_queue R" and "length buf' = length buf"
    and "pending (world R') = (pending (world R))(s := rest)"
    and "status (world R') = status (world R)"
proof -
  obtain t1 o1 rest1 k where sp: "reads_spec (status (world R) s) s (pending (world R) s)
      (table_of (sess R)) = (t1, o1, rest1, k)" by (metis prod_cases4)
  with spec have eqs: "o1 = out" "rest1 = rest"
    "t' = (if k = SOCKET_ERROR then tbl_remove s t1 else t1)"
    by (auto simp: do_reads_spec_def)
  from reads_loop_refines [OF inv r len] obtain buf' R1 where
    l: "reads_loop pf api s r buf R = Some (Inr (k, buf', R1))"
      "reading pending status s r buf R buf' R1" "table_of (sess R1) = t1"
      "m_queue (write_queue R1) = m_queue (write_queue R) @ out" "pending (world R1) s = rest"
    unfolding sp agrees_def eqs by auto
  have pend: "pending (world R1) = (pending (world R))(s := rest)"
    using l(2,5) by (auto simp: reading_def)
  define R' where "R' = (if k = SOCKET_ERROR then R1\<lparr>sess := remove_locked s (sess R1)\<rparr> else R1)"
  have "do_reads pf api s buf R = Some (Inr (buf', R'))"
    using r l(1) by (simp add: do_reads_def find_session_by_socket_def R'_def)
  moreover have "sessions_inv (sess R')" and "table_of (sess R') = t'"
    using l(2,3) eqs(3) by (auto simp: R'_def reading_def remove_locked_inv remove_locked_table)
  ultimately show thesis
    using that [of buf' R'] l(2,4) pend by (simp add: R'_def reading_def)
qed

text \<open>The same for a socket that the table knows, as one formula.\<close>

lemma do_reads_run:
  assumes inv: "sessions_inv (sess R)" and conn: "conns (table_of (sess R)) s = Some i"
    and len: "32 < length buf"
    and spec: "do_reads_spec (status (world R) s) s (pending (world R) s) (table_of (sess R)) =
      (t', out, rest)"
  shows "\<exists>buf' R'. do_reads pf api s buf R = Some (Inr (buf', R')) \<and> sessions_inv (sess R') \<and>
    table_of (sess R') = t' \<and> m_queue (write_queue R') = m_queue (write_queue R) @ out \<and>
    pending (world R') s = rest"
proof -
  obtain r where "sessions_by_socket (sess R) s = Some r"
    using conn conns_None_iff [OF inv, of s] by fastforce
  then show ?thesis by (rule do_reads_refines [OF inv _ len spec]) auto
qed

end

section \<open>What the handler leaves alone\<close>

text \<open>The handler changes the world by \<^verbatim>\<open>recv\<close> only.\<close>

lemma turn_keeps_world:
  assumes "recv_keeps api f"
    and "(if c then handle_handshake pf api s buf R else process_message pf api s buf R) = Some (Inr (k, buf1, R1))"
  shows "f (world R1) = f (world R)"
proof -
  note keeps = read_async_keeps [OF assms(1)]
  have fw: "world (forward d m R2) = world R2" for d m R2 by (simp add: forward_def split: option.split)
  show ?thesis
    using assms(2)
    by (cases c) (auto simp: handle_handshake_def process_message_def Let_def fw dest!: keeps
        split: option.splits sum.splits if_splits)
qed

lemma do_reads_keeps_world:
  assumes f: "recv_keeps api f"
    and d: "do_reads pf api s buf R = Some (Inr (buf', R'))"
  shows "f (world R') = f (world R)"
proof -
  have loop: "f (world R1) = f (world R)" if "reads_loop pf api s r buf R = Some (Inr (k, b, R1))" for r k b R1
  proof (rule reads_loop.raw_induct [OF _ that, where P = "\<lambda>pf a s r buf R res. \<forall>k b R1.
        a = api \<longrightarrow> res = Inr (k, b, R1) \<longrightarrow> f (world R1) = f (world R)", rule_format, OF _ refl refl])
    fix F pf a s r buf R res k b R1
    assume IH: "\<And>pf a s r buf R res k b R1. F pf a s r buf R = Some res \<Longrightarrow> a = api \<Longrightarrow>
        res = Inr (k, b, R1) \<Longrightarrow> f (world R1) = f (world R)"
      and run: "Option.bind (if session_id (sess R) r = NONE then handle_handshake pf a s buf R
          else process_message pf a s buf R)
        (\<lambda>res. case res of Inl e \<Rightarrow> Some (Inl e)
          | Inr (k, buf, R1) \<Rightarrow> if 0 < k then F pf a s r buf R1 else Some (Inr (k, buf, R1))) = Some res"
      and a: "a = api" and res: "res = Inr (k, b, R1)"
    obtain k1 buf1 R2 where turn: "(if session_id (sess R) r = NONE then handle_handshake pf a s buf R
          else process_message pf a s buf R) = Some (Inr (k1, buf1, R2))"
      and rest: "(if 0 < k1 then F pf a s r buf1 R2 else Some (Inr (k1, buf1, R2))) = Some (Inr (k, b, R1))"
      by (rule bind_turn [OF run [unfolded res]])
    have "f (world R2) = f (world R)" using turn_keeps_world [OF f turn [unfolded a]] .
    moreover have "f (world R1) = f (world R2)" using rest IH [OF _ a refl] by (auto split: if_splits)
    ultimately show "f (world R1) = f (world R)" by simp
  qed
  from d show ?thesis
    by (auto simp: do_reads_def dest!: loop split: option.splits sum.splits if_splits)
qed

section \<open>Streams of well-formed messages\<close>

text \<open>A socket that has an identifier and sends well-formed messages to routed destinations: each
  message goes to the socket of its destination, in the order of the stream, and an incomplete
  message at the end is dropped.\<close>

definition deliveries :: "table \<Rightarrow> msg list \<Rightarrow> (sock \<times> string) list" where
  "deliveries t ms = map (\<lambda>m. (the (routes t (m_dst m)), encode_msg m)) ms"

lemma reads_spec_msgs:
  assumes "conns t s \<noteq> Some NONE" and "\<forall>m\<in>set ms. msg_ok m \<and> routes t (m_dst m) \<noteq> None"
    and "length rest < 32"
  shows "reads_spec c s (concat (map encode_msg ms) @ rest) t =
    (t, deliveries t ms, [], if c = Open then 0 else SOCKET_ERROR)"
  using assms(2)
proof (induction ms)
  case Nil
  with assms show ?case by (simp add: reads_spec_short frame_size_def deliveries_def)
next
  case (Cons m ms)
  have "length (encode_msg m) = 32" using Cons.prems by (simp add: length_encode_msg)
  moreover have "parse_id (drop 29 (encode_msg m)) = m_dst m"
    using Cons.prems by (simp add: parse_id_encode)
  moreover obtain d where "routes t (m_dst m) = Some d" using Cons.prems by auto
  ultimately show ?case
    using Cons by (simp add: reads_spec_frame [OF assms(1)] deliveries_def)
qed

lemma reads_spec_session:
  assumes "conns t s = Some NONE" and "id_ok i" and "i < MAX_CLIENTS_COUNT"
    and "\<forall>m\<in>set ms. msg_ok m \<and> routes (tbl_add s i t) (m_dst m) \<noteq> None" and "length rest < 32"
  shows "reads_spec c s (buildIdMessage i @ concat (map encode_msg ms) @ rest) t =
    (tbl_add s i t, deliveries (tbl_add s i t) ms, [], if c = Open then 0 else SOCKET_ERROR)"
proof -
  have l: "length (buildIdMessage i) = 3"
    using assms(2) by (simp add: buildIdMessage_def id_field.enc_width)
  have "i \<noteq> NONE" using assms(2) by (auto simp: id_ok_def NONE_def)
  then have "conns (tbl_add s i t) s \<noteq> Some NONE" using assms(1,3) by (simp add: tbl_add_def domIff)
  from reads_spec_msgs [OF this assms(4,5)] show ?thesis
    using l by (simp add: reads_spec_handshake [OF assms(1)] parse_id_buildIdMessage [OF assms(2)])
qed

end
