(* ===== verification/Script_Net.thy ===== *)
theory Script_Net
  imports Os_Api
begin

text \<open>
  An instance of the socket interface that satisfies the laws of \<open>Os_Api\<close>: each socket has the
  chunks that will be received, one per call at most, a connection status and a log of what was
  sent; pending connections and the results of \<^verbatim>\<open>connect\<close> are given in advance. It shows that
  the hypotheses of the theorems can hold together and serves the concrete runs.
\<close>

record net =
  inbound :: "sock \<Rightarrow> string list"
  net_status :: "sock \<Rightarrow> conn_status"
  outbound :: "sock \<Rightarrow> string list"
  open_socks :: "sock list"
  listening :: sock
  backlog :: "string list list"
  connects :: "int list"
  last_error :: errcode

definition wouldblock_code :: "platform \<Rightarrow> errcode" where
  "wouldblock_code pf = (case pf of Win32 \<Rightarrow> WSAEWOULDBLOCK | Posix \<Rightarrow> EAGAIN)"

definition net_pending :: "net \<Rightarrow> sock \<Rightarrow> string" where
  "net_pending w s = concat (inbound w s)"

definition net_fresh :: "net \<Rightarrow> sock" where
  "net_fresh w = foldr max (open_socks w) 0 + 1"

definition net_recv :: "platform \<Rightarrow> sock \<Rightarrow> nat \<Rightarrow> net \<Rightarrow> int \<times> char list \<times> net" where
  "net_recv pf s n w =
     (case dropWhile (\<lambda>c. c = []) (inbound w s) of
        [] \<Rightarrow>
          (case net_status w s of
             Open \<Rightarrow> (-1, [], w\<lparr>last_error := wouldblock_code pf\<rparr>)
           | Closed \<Rightarrow> (0, [], w)
           | Broken \<Rightarrow> (-1, [], w\<lparr>last_error := Other_error 10054\<rparr>))
      | c # cs \<Rightarrow>
          let k = min n (length c)
          in (int k, take k c, w\<lparr>inbound := (inbound w)(s := drop k c # cs)\<rparr>))"

definition net_send :: "sock \<Rightarrow> string \<Rightarrow> net \<Rightarrow> int \<times> net" where
  "net_send s m w =
     (if net_status w s = Broken then (-1, w\<lparr>last_error := Other_error 10054\<rparr>)
      else (int (length m), w\<lparr>outbound := (outbound w)(s := outbound w s @ [m])\<rparr>))"

definition net_socket :: "net \<Rightarrow> sock \<times> net" where
  "net_socket w = (net_fresh w, w\<lparr>open_socks := net_fresh w # open_socks w\<rparr>)"

definition net_close :: "sock \<Rightarrow> net \<Rightarrow> net" where
  "net_close s w = w\<lparr>open_socks := removeAll s (open_socks w)\<rparr>"

definition net_accept :: "sock \<Rightarrow> net \<Rightarrow> sock \<times> net" where
  "net_accept s w =
     (case backlog w of
        [] \<Rightarrow> (-1, w)
      | b # bs \<Rightarrow>
          let c = net_fresh w
          in (c, w\<lparr>open_socks := c # open_socks w, backlog := bs,
                   inbound := (inbound w)(c := b)\<rparr>))"

definition net_ready :: "net \<Rightarrow> sock \<Rightarrow> bool" where
  "net_ready w s \<longleftrightarrow>
     (if s = listening w then backlog w \<noteq> [] else net_pending w s \<noteq> [] \<or> net_status w s \<noteq> Open)"

definition net_FD_SET :: "nat \<Rightarrow> sock \<Rightarrow> sock list \<Rightarrow> sock list" where
  "net_FD_SET cap s f = (if s \<in> set f \<or> cap \<le> length f then f else f @ [s])"

definition net_select :: "int \<Rightarrow> sock list \<Rightarrow> net \<Rightarrow> int \<times> sock list \<times> net" where
  "net_select k f w = (let f' = filter (net_ready w) f in (int (length f'), f', w))"

definition net_connect :: "sock \<Rightarrow> 32 word \<Rightarrow> port \<Rightarrow> net \<Rightarrow> int \<times> net" where
  "net_connect s a p w =
     (case connects w of [] \<Rightarrow> (-1, w) | r # rs \<Rightarrow> (r, w\<lparr>connects := rs\<rparr>))"

definition net_server :: "platform \<Rightarrow> nat \<Rightarrow> (net, sock list) server_api" where
  "net_server pf cap = \<lparr>
     api_startup = (\<lambda>w. (0, w)), api_cleanup = (\<lambda>w. w), api_socket = net_socket,
     api_recv = net_recv pf, api_send = net_send, api_close = net_close,
     api_errno = last_error, api_inet_pton = (\<lambda>_. 0),
     api_bind = (\<lambda>s a p w. (0, w)), api_listen = (\<lambda>s n w. (0, w\<lparr>listening := s\<rparr>)),
     api_accept = net_accept, api_ioctl_nonblock = (\<lambda>s w. (0, w)),
     api_fcntl_getfl = (\<lambda>s w. (0, w)), api_fcntl_setfl = (\<lambda>s fl w. (0, w)),
     api_O_NONBLOCK = 2048,
     api_FD_ZERO = (\<lambda>_. []), api_FD_SET = net_FD_SET cap, api_FD_ISSET = (\<lambda>s f. s \<in> set f),
     api_fd_array = (\<lambda>f. f), api_select = net_select\<rparr>"

definition net_client :: "platform \<Rightarrow> net client_api" where
  "net_client pf = \<lparr>
     api_startup = (\<lambda>w. (0, w)), api_cleanup = (\<lambda>w. w), api_socket = net_socket,
     api_recv = net_recv pf, api_send = net_send, api_close = net_close,
     api_errno = last_error, api_inet_pton = (\<lambda>_. 0), api_connect = net_connect,
     api_Sleep = (\<lambda>_ w. w), api_usleep = (\<lambda>_ w. w)\<rparr>"

lemmas net_api_defs = net_server_def net_client_def

section \<open>The laws hold\<close>

lemma net_fresh_new: "net_fresh w \<notin> set (open_socks w)" "0 \<le> net_fresh w"
proof -
  have "s \<le> foldr max xs 0" if "s \<in> set xs" for s :: int and xs
    using that by (induction xs) auto
  then show "net_fresh w \<notin> set (open_socks w)" by (fastforce simp: net_fresh_def)
  have "0 \<le> foldr max xs (0::int)" for xs by (induction xs) auto
  then show "0 \<le> net_fresh w" by (simp add: net_fresh_def add_nonneg_nonneg)
qed

lemma concat_dropWhile_Nil: "concat (dropWhile (\<lambda>c. c = []) cs) = concat cs"
  by (induction cs) auto

lemma net_recv_data:
  assumes "net_pending w s \<noteq> []" and "0 < n" and "net_recv pf s n w = (r, bs, w')"
  shows "0 < r" and "bs = take (nat r) (net_pending w s)"
    and "net_pending w' = (net_pending w)(s := drop (nat r) (net_pending w s))"
    and "net_status w' = net_status w"
proof -
  obtain c cs where c: "dropWhile (\<lambda>c. c = []) (inbound w s) = c # cs"
    using assms(1) concat_dropWhile_Nil [of "inbound w s"]
    by (cases "dropWhile (\<lambda>c. c = []) (inbound w s)") (auto simp: net_pending_def)
  then have ne: "c \<noteq> []" using hd_dropWhile [of "\<lambda>c. c = []" "inbound w s"] by fastforce
  have p: "concat (inbound w s) = c @ concat cs"
    using c concat_dropWhile_Nil [of "inbound w s"] by simp
  show "0 < r" "bs = take (nat r) (net_pending w s)"
    "net_pending w' = (net_pending w)(s := drop (nat r) (net_pending w s))"
    "net_status w' = net_status w"
    using assms(2,3) ne c by (auto simp: net_recv_def Let_def p net_pending_def)
qed

lemma net_recv_empty:
  assumes "net_pending w s = []" and "net_recv pf s n w = (r, bs, w')"
  shows "bs = []" and "net_pending w' = net_pending w" and "net_status w' = net_status w"
    and "case net_status w s of
       Open \<Rightarrow> r = -1 \<and> would_block pf (last_error w') | Closed \<Rightarrow> r = 0
     | Broken \<Rightarrow> r = -1 \<and> \<not> would_block pf (last_error w')"
proof -
  have "dropWhile (\<lambda>c. c = []) (inbound w s) = []"
    using assms(1) by (auto simp: net_pending_def)
  with assms(2) show "bs = []" "net_pending w' = net_pending w" "net_status w' = net_status w"
    "case net_status w s of
       Open \<Rightarrow> r = -1 \<and> would_block pf (last_error w') | Closed \<Rightarrow> r = 0
     | Broken \<Rightarrow> r = -1 \<and> \<not> would_block pf (last_error w')"
    by (auto simp: net_recv_def net_pending_def fun_eq_iff would_block_def wouldblock_code_def
        split: conn_status.splits platform.splits)
qed

lemma net_recv_result:
  "net_recv pf s n w = (r, bs, w') \<Longrightarrow>
   r = SOCKET_ERROR \<and> bs = [] \<or> 0 \<le> r \<and> r \<le> int n \<and> length bs = nat r"
  by (auto simp: net_recv_def Let_def SOCKET_ERROR_def split: list.splits conn_status.splits)

lemma net_stream_laws:
  assumes "api_recv api = net_recv pf" and "api_errno api = last_error"
  shows "quiet_stream api net_pending pf net_status"
proof (unfold_locales, goal_cases)
  case (1 s n w r bs w') then show ?case by (simp add: assms net_recv_result)
next
  case (2 w s n r bs w')
  then show ?case using net_recv_data [of w s n pf r bs w'] assms by auto
next
  case (3 w s n r bs w')
  then show ?case using net_recv_data [of w s n pf r bs w'] assms by auto
next
  case (4 w s n r bs w')
  then show ?case using net_recv_empty [of w s pf n r bs w'] assms by (auto simp: SOCKET_ERROR_def split: conn_status.splits)
qed

interpretation net_s: quiet_stream "net_server pf cap" net_pending pf net_status
  by (rule net_stream_laws) (simp_all add: net_server_def)

interpretation net_c: quiet_stream "net_client pf" net_pending pf net_status
  by (rule net_stream_laws) (simp_all add: net_client_def)

lemma net_recv_open: "net_recv pf s n w = (r, bs, w') \<Longrightarrow> open_socks w' = open_socks w"
  by (auto simp: net_recv_def Let_def split: list.splits conn_status.splits)

interpretation net_d: descriptor_api "net_server pf cap" "\<lambda>w. set (open_socks w)"
  by unfold_locales
    (auto simp: net_server_def net_accept_def net_send_def net_select_def net_close_def Let_def
      net_recv_open net_fresh_new SOCKET_ERROR_def split: list.splits if_splits)

interpretation net_f: fd_set_api "net_server pf cap" cap
  by unfold_locales (auto simp: net_server_def net_FD_SET_def net_select_def Let_def)

interpretation net_ss: send_api "net_server pf cap"
  by unfold_locales (auto simp: net_server_def net_send_def SOCKET_ERROR_def split: if_splits)

interpretation net_cs: send_api "net_client pf"
  by unfold_locales (auto simp: net_client_def net_send_def SOCKET_ERROR_def split: if_splits)

text \<open>What was sent on a socket, and the pieces that are still to be received.\<close>

definition net_sent :: "net \<Rightarrow> sock \<Rightarrow> string" where
  "net_sent w s = concat (outbound w s)"

definition net_pieces :: "net \<Rightarrow> sock \<Rightarrow> string list" where
  "net_pieces w s = filter (\<lambda>c. c \<noteq> []) (inbound w s)"

lemma net_pieces_Cons:
  assumes "net_pieces w s = p # ps"
  obtains cs where "dropWhile (\<lambda>c. c = []) (inbound w s) = p # cs" and "filter (\<lambda>c. c \<noteq> []) cs = ps"
proof -
  have "\<exists>cs. dropWhile (\<lambda>c. c = []) xs = p # cs \<and> filter (\<lambda>c. c \<noteq> []) cs = ps"
    if "filter (\<lambda>c. c \<noteq> []) xs = p # ps" for xs
    using that by (induction xs) (auto split: if_splits)
  with assms that show thesis unfolding net_pieces_def by blast
qed

interpretation net_p: piece_stream "net_client pf" net_pieces net_sent "\<lambda>w s. net_status w s \<noteq> Broken"
proof (unfold_locales, goal_cases)
  case (1 w s p ps n)
  then obtain cs where cs: "dropWhile (\<lambda>c. c = []) (inbound w s) = p # cs" "filter (\<lambda>c. c \<noteq> []) cs = ps"
    using net_pieces_Cons by blast
  let ?w = "w\<lparr>inbound := (inbound w)(s := drop (min n (length p)) p # cs)\<rparr>"
  have "net_recv pf s n w = (int (min n (length p)), take n p, ?w)"
    unfolding net_recv_def cs(1) list.case Let_def by (simp add: min_def)
  then show ?case
    by (intro exI [of _ ?w]) (auto simp: net_client_def net_pieces_def net_sent_def cs(2) min_def)
next
  case (2 w s n r bs w')
  then have "dropWhile (\<lambda>c. c = []) (inbound w s) = []"
    by (auto simp: net_pieces_def filter_empty_conv)
  with 2(2) show ?case
    by (auto simp: net_client_def net_recv_def net_sent_def split: conn_status.splits)
qed (auto simp: net_client_def net_send_def net_close_def net_pieces_def net_sent_def)

section \<open>A slow network\<close>

text \<open>The same network with gaps: an empty chunk is a moment at which nothing has arrived.\<close>

definition slow_recv :: "platform \<Rightarrow> sock \<Rightarrow> nat \<Rightarrow> net \<Rightarrow> int \<times> char list \<times> net" where
  "slow_recv pf s n w =
     (case inbound w s of
        [] \<Rightarrow> net_recv pf s n w
      | c # cs \<Rightarrow>
          if c = [] then (-1, [], w\<lparr>last_error := wouldblock_code pf, inbound := (inbound w)(s := cs)\<rparr>)
          else let k = min n (length c)
               in (int k, take k c,
                   w\<lparr>inbound := (inbound w)(s := (if k = length c then cs else drop k c # cs))\<rparr>))"

definition slow_server :: "platform \<Rightarrow> nat \<Rightarrow> (net, sock list) server_api" where
  "slow_server pf cap = (net_server pf cap)\<lparr>api_recv := slow_recv pf\<rparr>"

interpretation slow: timed_stream "slow_server pf cap" net_pending
proof (unfold_locales, goal_cases)
  case (1 s n w r bs w')
  then show ?case
    using net_recv_result [of pf s n w r bs w']
    by (cases "inbound w s") (auto simp: slow_server_def slow_recv_def SOCKET_ERROR_def Let_def split: if_splits)
next
  case (2 n s w r bs w')
  then have rc: "slow_recv pf s n w = (r, bs, w')" by (simp add: slow_server_def)
  show ?case
  proof (cases "inbound w s")
    case Nil
    then have "net_pending w s = []" "net_recv pf s n w = (r, bs, w')"
      using rc by (simp_all add: net_pending_def slow_recv_def)
    from net_recv_empty [OF this] \<open>net_pending w s = []\<close> show ?thesis by auto
  next
    case (Cons c cs)
    have "net_pending w s = bs @ (drop (length bs) c @ concat cs)"
      using rc Cons by (auto simp: net_pending_def slow_recv_def Let_def split: if_splits)
    moreover have "net_pending w' = (net_pending w)(s := drop (length bs) c @ concat cs)"
      using rc Cons by (auto simp: net_pending_def slow_recv_def Let_def fun_eq_iff split: if_splits)
    ultimately show ?thesis by blast
  qed
qed

end
