(* ===== verification/Router_Properties.thy ===== *)
theory Router_Properties
  imports Router_Reads Script_Net Table_Properties
begin

text \<open>
  The properties of the router's handlers, of its socket layer, of one pass of the event loop and
  of start-up. Hypotheses on the socket interface are the locale predicates of \<open>Os_Api\<close>; the
  witnesses instantiate them with the network of \<open>Script_Net\<close>.
\<close>

section \<open>A sample router\<close>

definition sample_net :: "(sock \<Rightarrow> string list) \<Rightarrow> conn_status \<Rightarrow> net" where
  "sample_net ib c = \<lparr>inbound = ib, net_status = (\<lambda>_. c), outbound = (\<lambda>_. []),
     open_socks = [4, 5], listening = 3, backlog = [], connects = [], last_error = WSAEWOULDBLOCK\<rparr>"

definition sample_router :: "int \<Rightarrow> string list \<Rightarrow> conn_status \<Rightarrow> net router" where
  "sample_router i chunks c = \<lparr>sess = sample i, read_queue = squeue0, write_queue = squeue0,
     world = sample_net ((\<lambda>_. [])(5 := chunks)) c\<rparr>"

abbreviation "sample_api \<equiv> net_server Win32 64"
abbreviation "sample_buf \<equiv> replicate 33 NUL"

lemma sample_inv: "sessions_inv (sess (sample_router i chunks c))"
  by (simp add: sample_router_def sess_run_inv sample_run)

lemma sample_conns:
  "conns (table_of (sess (sample_router 999 chunks c))) 5 = Some NONE"
  "i < 999 \<Longrightarrow> conns (table_of (sess (sample_router i chunks c))) 5 = Some i"
  by (simp_all add: sample_router_def sample_defs)

lemma sample_world:
  "net_pending (world (sample_router i chunks c)) 5 = concat chunks"
  "net_status (world (sample_router i chunks c)) 5 = c"
  by (simp_all add: sample_router_def sample_net_def net_pending_def)

section \<open>Reading\<close>

text \<open>C2: On any bytes that have arrived, on a connection in any state, the read handler
  terminates without an exception and does what the specification on tables and bytes says: the
  tables, the tasks appended to the write queue and the bytes left unread are those of
  \<open>do_reads_spec\<close>; the read queue, the other sockets and the invariant of the tables are kept.\<close>

theorem do_reads_implements_spec:
  assumes "quiet_stream api pending pf status" and "sessions_inv (sess R)"
    and "find_session_by_socket s (sess R) = Some r" and "32 < length buf"
  shows "\<exists>buf' R'. do_reads pf api s buf R = Some (Inr (buf', R')) \<and> sessions_inv (sess R') \<and>
    (table_of (sess R'), drop (length (m_queue (write_queue R))) (m_queue (write_queue R')),
       pending (world R') s) =
      do_reads_spec (status (world R) s) s (pending (world R) s) (table_of (sess R)) \<and>
    take (length (m_queue (write_queue R))) (m_queue (write_queue R')) = m_queue (write_queue R) \<and>
    read_queue R' = read_queue R \<and> (\<forall>t. t \<noteq> s \<longrightarrow> pending (world R') t = pending (world R) t)"
proof -
  obtain t' out rest where spec:
    "do_reads_spec (status (world R) s) s (pending (world R) s) (table_of (sess R)) = (t', out, rest)"
    by (metis prod_cases3)
  show ?thesis
    by (rule quiet_stream.do_reads_refines [OF assms(1,2) _ assms(4) spec, of r])
      (use assms(3) spec in \<open>auto simp: find_session_by_socket_def\<close>)
qed

theorem do_reads_implements_spec_witness:
  "\<exists>buf' R'. do_reads Win32 sample_api 5 sample_buf (sample_router 999 [''00'', ''7x''] Open) =
     Some (Inr (buf', R')) \<and> sessions_inv (sess R')"
proof -
  have "find_session_by_socket 5 (sess (sample_router 999 [''00'', ''7x''] Open)) = Some 1"
    by (simp add: sample_router_def sample_defs)
  from do_reads_implements_spec [OF net_s.quiet_stream_axioms [of Win32 64] sample_inv this,
      of sample_buf] show ?thesis by auto
qed

text \<open>C10: On an open connection that has an identifier, well-formed messages to registered
  destinations are all forwarded, in the order of the stream, each to the socket its destination
  is routed to, however the network cuts the stream into pieces; an incomplete message at the end
  is dropped and nothing stays unread.\<close>

theorem do_reads_forwards_messages:
  assumes "quiet_stream api pending pf status" and "sessions_inv (sess R)"
    and "conns (table_of (sess R)) s = Some i" and "i \<noteq> NONE" and "32 < length buf"
    and "status (world R) s = Open"
    and "pending (world R) s = concat (map encode_msg ms) @ rest" and "length rest < 32"
    and "\<forall>m\<in>set ms. msg_ok m \<and> routes (table_of (sess R)) (m_dst m) \<noteq> None"
  shows "\<exists>buf' R'. do_reads pf api s buf R = Some (Inr (buf', R')) \<and>
    m_queue (write_queue R') = m_queue (write_queue R) @
      map (\<lambda>m. (the (routes (table_of (sess R)) (m_dst m)), encode_msg m)) ms \<and>
    table_of (sess R') = table_of (sess R) \<and> pending (world R') s = []"
proof -
  have "do_reads_spec (status (world R) s) s (pending (world R) s) (table_of (sess R)) =
      (table_of (sess R), deliveries (table_of (sess R)) ms, [])"
    using reads_spec_msgs [of "table_of (sess R)" s ms rest Open] assms(3,4,6-9)
    by (simp add: do_reads_spec_def SOCKET_ERROR_def)
  from quiet_stream.do_reads_run [OF assms(1,2,3,5) this] show ?thesis
    unfolding deliveries_def by blast
qed

theorem do_reads_forwards_messages_witness:
  "\<exists>buf' R'. do_reads Win32 sample_api 5 sample_buf (sample_router 5 
       [''0052200123456'', ''1111111111111111003005'', ''22''] Open) = Some (Inr (buf', R')) \<and>
     m_queue (write_queue R') = [(4, ''00522001234561111111111111111003'')]"
proof -
  let ?R = "sample_router 5 [''0052200123456'', ''1111111111111111003005'', ''22''] Open"
  let ?m = "first_msg 5 3"
  have enc: "encode_msg ?m = ''00522001234561111111111111111003''" by code_simp
  have rt: "routes (table_of (sess ?R)) 3 = Some 4" by (simp add: sample_router_def sample_defs)
  have "msg_ok ?m" by (simp add: msg_ok_first id_ok_def)
  with rt have ok: "\<forall>m\<in>set [?m]. msg_ok m \<and> routes (table_of (sess ?R)) (m_dst m) \<noteq> None"
    by (simp add: first_msg_def)
  have p: "net_pending (world ?R) 5 = concat (map encode_msg [?m]) @ ''00522''"
    by (simp add: sample_world enc)
  have q: "m_queue (write_queue ?R) = []" by (simp add: sample_router_def squeue0_def)
  have "5 \<noteq> NONE" by (simp add: NONE_def)
  with do_reads_forwards_messages [OF net_s.quiet_stream_axioms [of Win32 64] sample_inv
      sample_conns(2) _ _ sample_world(2) p _ ok, of sample_buf] show ?thesis
    unfolding q by (auto simp: enc rt m_dst_first)
qed

text \<open>C11: On a new connection the first three bytes are the node's identifier: when they are an
  identifier below 999, the connection and the route of that identifier are set, and the messages
  that follow in the same stream are forwarded by the updated table, so also to the node
  itself.\<close>

theorem do_reads_identifies:
  assumes "quiet_stream api pending pf status" and "sessions_inv (sess R)"
    and "conns (table_of (sess R)) s = Some NONE" and "32 < length buf"
    and "id_ok i" and "i < 999" and "status (world R) s = Open"
    and "pending (world R) s = buildIdMessage i @ concat (map encode_msg ms) @ rest"
    and "length rest < 32"
    and "\<forall>m\<in>set ms. msg_ok m \<and> (m_dst m = i \<or> routes (table_of (sess R)) (m_dst m) \<noteq> None)"
  shows "\<exists>buf' R'. do_reads pf api s buf R = Some (Inr (buf', R')) \<and>
    conns (table_of (sess R')) = (conns (table_of (sess R)))(s \<mapsto> i) \<and>
    routes (table_of (sess R')) = (routes (table_of (sess R)))(i \<mapsto> s) \<and>
    m_queue (write_queue R') = m_queue (write_queue R) @
      map (\<lambda>m. (the (routes (table_of (sess R')) (m_dst m)), encode_msg m)) ms \<and>
    pending (world R') s = []"
proof -
  let ?t = "table_of (sess R)"
  have lim: "i < MAX_CLIENTS_COUNT" using assms(6) by (simp add: MAX_CLIENTS_COUNT_def)
  have add: "conns (tbl_add s i ?t) = (conns ?t)(s \<mapsto> i)" "routes (tbl_add s i ?t) = (routes ?t)(i \<mapsto> s)"
    using assms(3) lim by (simp_all add: tbl_add_def domIff)
  have ok: "\<forall>m\<in>set ms. msg_ok m \<and> routes (tbl_add s i ?t) (m_dst m) \<noteq> None"
    using assms(10) by (auto simp: add)
  have "do_reads_spec (status (world R) s) s (pending (world R) s) ?t =
      (tbl_add s i ?t, deliveries (tbl_add s i ?t) ms, [])"
    using reads_spec_session [OF assms(3,5) lim ok assms(9), of Open] assms(7,8)
    by (simp add: do_reads_spec_def SOCKET_ERROR_def)
  from quiet_stream.do_reads_run [OF assms(1-4) this] show ?thesis
    unfolding deliveries_def add [symmetric] by auto
qed

theorem do_reads_identifies_witness:
  "\<exists>buf' R'. do_reads Win32 sample_api 5 sample_buf
       (sample_router 999 [''00'', ''7'', buildFirstMessage 7 3] Open) = Some (Inr (buf', R')) \<and>
     routes (table_of (sess R')) 7 = Some 5 \<and>
     m_queue (write_queue R') = [(4, ''00722001234561111111111111111003'')]"
proof -
  let ?R = "sample_router 999 [''00'', ''7'', buildFirstMessage 7 3] Open"
  have enc: "encode_msg (first_msg 7 3) = ''00722001234561111111111111111003''" by code_simp
  have rt: "routes (table_of (sess ?R)) 3 = Some 4" by (simp add: sample_router_def sample_defs)
  have ok: "\<forall>m\<in>set [first_msg 7 3]. msg_ok m \<and>
      (m_dst m = 7 \<or> routes (table_of (sess ?R)) (m_dst m) \<noteq> None)"
    by (simp add: rt msg_ok_first id_ok_def)
  have "buildIdMessage 7 = ''007''" by code_simp
  then have p: "net_pending (world ?R) 5 = buildIdMessage 7 @ concat (map encode_msg [first_msg 7 3]) @ []"
    by (simp add: sample_world buildFirstMessage_encode)
  have q: "m_queue (write_queue ?R) = []" by (simp add: sample_router_def squeue0_def)
  from do_reads_identifies [OF net_s.quiet_stream_axioms [of Win32 64] sample_inv sample_conns(1) _ _ _
      sample_world(2) p _ ok, of sample_buf] show ?thesis
    unfolding q by (auto simp: enc rt id_ok_def)
qed

text \<open>C12: When the peer has closed the connection, or it is broken, the messages that arrived before
  are still forwarded, and then the connection and the route of its identifier are deleted; every
  other connection and route stays.\<close>

theorem do_reads_disconnects:
  assumes "quiet_stream api pending pf status" and "sessions_inv (sess R)"
    and "conns (table_of (sess R)) s = Some i" and "i \<noteq> NONE" and "32 < length buf"
    and "status (world R) s \<noteq> Open"
    and "pending (world R) s = concat (map encode_msg ms) @ rest" and "length rest < 32"
    and "\<forall>m\<in>set ms. msg_ok m \<and> routes (table_of (sess R)) (m_dst m) \<noteq> None"
  shows "\<exists>buf' R'. do_reads pf api s buf R = Some (Inr (buf', R')) \<and>
    m_queue (write_queue R') = m_queue (write_queue R) @
      map (\<lambda>m. (the (routes (table_of (sess R)) (m_dst m)), encode_msg m)) ms \<and>
    conns (table_of (sess R')) = (conns (table_of (sess R)))(s := None) \<and>
    routes (table_of (sess R')) = (routes (table_of (sess R)))(i := None)"
proof -
  let ?t = "table_of (sess R)"
  have "do_reads_spec (status (world R) s) s (pending (world R) s) ?t =
      (tbl_remove s ?t, deliveries ?t ms, [])"
    using reads_spec_msgs [of ?t s ms rest "status (world R) s"] assms(3,4,6-9)
    by (simp add: do_reads_spec_def)
  moreover have "conns (tbl_remove s ?t) = (conns ?t)(s := None)"
    "routes (tbl_remove s ?t) = (routes ?t)(i := None)"
    using assms(3,4) by (simp_all add: tbl_remove_def)
  ultimately show ?thesis
    using quiet_stream.do_reads_run [OF assms(1,2,3,5)] by (auto simp: deliveries_def)
qed

theorem do_reads_disconnects_witness:
  "\<exists>buf' R'. do_reads Posix (net_server Posix 64) 5 sample_buf (sample_router 7 [''0''] Closed) =
     Some (Inr (buf', R')) \<and>
   m_queue (write_queue R') = [] \<and> conns (table_of (sess R')) 5 = None \<and>
   conns (table_of (sess R')) 4 = Some 3 \<and> routes (table_of (sess R')) 7 = None"
proof -
  let ?R = "sample_router 7 [''0''] Closed"
  have p: "net_pending (world ?R) 5 = concat (map encode_msg []) @ ''0''" by (simp add: sample_world)
  have q: "m_queue (write_queue ?R) = []" by (simp add: sample_router_def squeue0_def)
  have c: "conns (table_of (sess ?R)) 4 = Some 3" by (simp add: sample_router_def sample_defs)
  have "status \<noteq> Open" if "status = Closed" for status using that by simp
  from do_reads_disconnects [OF net_s.quiet_stream_axioms [of Posix 64] sample_inv sample_conns(2) _ _
      this [OF sample_world(2)] p, of sample_buf] show ?thesis
    unfolding q by (auto simp: c NONE_def)
qed

text \<open>C17: A message to an identifier that is not registered is dropped and ends the run of the
  handler: the bytes behind it stay unread although they have arrived, and the table is not
  changed.\<close>

theorem do_reads_stops_at_unknown:
  assumes "quiet_stream api pending pf status" and "sessions_inv (sess R)"
    and "conns (table_of (sess R)) s = Some i" and "i \<noteq> NONE" and "32 < length buf"
    and "msg_ok m" and "routes (table_of (sess R)) (m_dst m) = None"
    and "pending (world R) s = encode_msg m @ rest"
  shows "\<exists>buf' R'. do_reads pf api s buf R = Some (Inr (buf', R')) \<and>
    m_queue (write_queue R') = m_queue (write_queue R) \<and>
    table_of (sess R') = table_of (sess R) \<and> pending (world R') s = rest"
proof -
  have "length (encode_msg m) = 32" by (rule length_encode_msg [OF assms(6)])
  then have "do_reads_spec (status (world R) s) s (pending (world R) s) (table_of (sess R)) =
      (table_of (sess R), [], rest)"
    using assms(3,4,6-8)
    by (simp add: do_reads_spec_def reads_spec_frame parse_id_encode SOCKET_ERROR_def)
  from quiet_stream.do_reads_run [OF assms(1,2,3,5) this] show ?thesis by auto
qed

theorem do_reads_stops_at_unknown_witness:
  "\<exists>buf' R'. do_reads Win32 sample_api 5 sample_buf
       (sample_router 7 [buildFirstMessage 7 8, buildFirstMessage 7 3] Open) = Some (Inr (buf', R')) \<and>
     m_queue (write_queue R') = [] \<and> net_pending (world R') 5 = buildFirstMessage 7 3"
proof -
  let ?R = "sample_router 7 [buildFirstMessage 7 8, buildFirstMessage 7 3] Open"
  have rt: "routes (table_of (sess ?R)) (m_dst (first_msg 7 8)) = None"
    by (simp add: sample_router_def sample_defs)
  have p: "net_pending (world ?R) 5 = encode_msg (first_msg 7 8) @ buildFirstMessage 7 3"
    by (simp add: sample_world buildFirstMessage_encode)
  have q: "m_queue (write_queue ?R) = []" by (simp add: sample_router_def squeue0_def)
  have "msg_ok (first_msg 7 8)" by (simp add: msg_ok_first id_ok_def)
  from do_reads_stops_at_unknown [OF net_s.quiet_stream_axioms [of Win32 64] sample_inv
      sample_conns(2) _ _ this rt p, of sample_buf] show ?thesis
    unfolding q by (auto simp: NONE_def)
qed

text \<open>C32: A connection that identifies itself with three characters that are no number is registered
  under \<open>-1\<close>, which is also the mark of a connection without identifier: on an open connection it stays
  without identifier, and when the connection has ended it is removed, but the route of \<open>-1\<close> leads to
  its socket in both cases. A message of another node whose destination is no number is then queued
  for that socket.\<close>

theorem unparsable_id_is_routed:
  assumes "quiet_stream api pending pf status" and "sessions_inv (sess R)"
    and "conns (table_of (sess R)) s = Some NONE" and "32 < length buf"
    and "pending (world R) s = f" and "length f = 3" and "stoi f = Inl Invalid_argument"
  shows "\<exists>buf' R'. do_reads pf api s buf R = Some (Inr (buf', R')) \<and>
    routes (table_of (sess R')) (-1) = Some s \<and>
    conns (table_of (sess R')) s = (if status (world R) s = Open then Some NONE else None) \<and>
    (\<forall>R2 t j g. sess R2 = sess R' \<and> conns (table_of (sess R)) t = Some j \<and> j \<noteq> NONE \<and>
       status (world R2) t = Open \<and> pending (world R2) t = g \<and> length g = 32 \<and>
       stoi (drop 29 g) = Inl Invalid_argument \<longrightarrow>
       (\<exists>buf2 R3. do_reads pf api t buf R2 = Some (Inr (buf2, R3)) \<and>
          m_queue (write_queue R3) = m_queue (write_queue R2) @ [(s, g)]))"
proof -
  let ?t = "table_of (sess R)" and ?c = "status (world R) s"
  let ?u = "if ?c = Open then tbl_add s (-1) ?t else tbl_remove s (tbl_add s (-1) ?t)"
  have add: "conns (tbl_add s (-1) ?t) s = Some NONE" "routes (tbl_add s (-1) ?t) (-1) = Some s"
    using assms(3) by (simp_all add: tbl_add_def domIff MAX_CLIENTS_COUNT_def NONE_def)
  then have u: "routes ?u (-1) = Some s" "conns ?u s = (if ?c = Open then Some NONE else None)"
    by (simp_all add: tbl_remove_def)
  have other: "conns ?u t = conns ?t t" if "t \<noteq> s" for t
    using that by (simp add: tbl_add_def tbl_remove_def split: option.split)
  have "do_reads_spec ?c s (pending (world R) s) ?t = (?u, [], [])"
    using assms(3,5-7) add
    by (simp add: do_reads_spec_def reads_spec_handshake reads_spec_short frame_size_def parse_id_def SOCKET_ERROR_def)
  from quiet_stream.do_reads_run [OF assms(1-4) this] obtain buf' R' where
    R': "do_reads pf api s buf R = Some (Inr (buf', R'))" "sessions_inv (sess R')" "table_of (sess R') = ?u" by auto
  have "\<exists>buf2 R3. do_reads pf api t buf R2 = Some (Inr (buf2, R3)) \<and>
      m_queue (write_queue R3) = m_queue (write_queue R2) @ [(s, g)]"
    if g: "sess R2 = sess R'" "conns ?t t = Some j" "j \<noteq> NONE" "status (world R2) t = Open"
      "pending (world R2) t = g" "length g = 32" "stoi (drop 29 g) = Inl Invalid_argument" for R2 t j g
  proof -
    have "conns ?u t = Some j" using other [of t] g(2,3) assms(3) by fastforce
    then have "do_reads_spec (status (world R2) t) t (pending (world R2) t) (table_of (sess R2)) = (?u, [(s, g)], [])"
      using g u(1) R'(3)
      by (simp add: do_reads_spec_def reads_spec_frame reads_spec_short frame_size_def parse_id_def SOCKET_ERROR_def)
    from quiet_stream.do_reads_run [OF assms(1) _ _ assms(4) this] R'(2,3) g(1) \<open>conns ?u t = Some j\<close> show ?thesis by auto
  qed
  moreover have "routes (table_of (sess R')) (-1) = Some s"
    "conns (table_of (sess R')) s = (if ?c = Open then Some NONE else None)"
    using u unfolding R'(3) .
  ultimately show ?thesis using R'(1) by (intro exI [of _ buf'] exI [of _ R']) blast
qed

definition stray_message :: string where
  "stray_message = ''00322001234561111111111111111abc''"

theorem unparsable_id_is_routed_witness:
  "\<exists>buf' R' buf2 R3. do_reads Win32 sample_api 5 sample_buf (sample_router 999 [''abc''] Closed) = Some (Inr (buf', R')) \<and>
     conns (table_of (sess R')) 5 = None \<and>
     do_reads Win32 sample_api 4 sample_buf
       (R'\<lparr>write_queue := squeue0, world := sample_net ((\<lambda>_. [])(4 := [stray_message])) Open\<rparr>) = Some (Inr (buf2, R3)) \<and>
     m_queue (write_queue R3) = [(5, stray_message)]"
proof -
  have f: "net_pending (world (sample_router 999 [''abc''] Closed)) 5 = ''abc''" by (simp add: sample_world)
  have n: "stoi ''abc'' = Inl Invalid_argument" by code_simp
  have g: "length stray_message = 32" "stoi (drop 29 stray_message) = Inl Invalid_argument" by code_simp+
  have c: "conns (table_of (sess (sample_router 999 [''abc''] Closed))) 4 = Some 3"
    by (simp add: sample_router_def sample_defs)
  obtain buf' R' where R': "do_reads Win32 sample_api 5 sample_buf (sample_router 999 [''abc''] Closed) = Some (Inr (buf', R'))"
    "conns (table_of (sess R')) 5 = None"
    and run: "\<And>R2 t j g. sess R2 = sess R' \<Longrightarrow>
       conns (table_of (sess (sample_router 999 [''abc''] Closed))) t = Some j \<Longrightarrow> j \<noteq> NONE \<Longrightarrow>
       net_status (world R2) t = Open \<Longrightarrow> net_pending (world R2) t = g \<Longrightarrow> length g = 32 \<Longrightarrow>
       stoi (drop 29 g) = Inl Invalid_argument \<Longrightarrow>
       \<exists>buf2 R3. do_reads Win32 sample_api t sample_buf R2 = Some (Inr (buf2, R3)) \<and>
         m_queue (write_queue R3) = m_queue (write_queue R2) @ [(5, g)]"
    using unparsable_id_is_routed [OF net_s.quiet_stream_axioms [of Win32 64] sample_inv sample_conns(1) _ f _ n,
      of sample_buf] by (auto simp: sample_world) blast
  from run [OF _ c _ _ _ g, of "R'\<lparr>write_queue := squeue0, world := sample_net ((\<lambda>_. [])(4 := [stray_message])) Open\<rparr>"] R'
  show ?thesis by (auto simp: NONE_def sample_net_def net_pending_def squeue0_def)
qed

text \<open>C33: A node with the identifier 999, which fits the three characters of the identification
  message, is refused, and the handler goes on taking the node's first message for
  identification messages: the connection ends up registered under 220, the first characters of
  the message type, and the rest of the message is dropped.\<close>

theorem node_999_becomes_220:
  assumes "quiet_stream api pending pf status" and "sessions_inv (sess R)"
    and "conns (table_of (sess R)) s = Some NONE" and "32 < length buf"
    and "status (world R) s = Open" and "id_ok d"
    and "pending (world R) s = buildIdMessage 999 @ buildFirstMessage 999 d"
  shows "\<exists>buf' R'. do_reads pf api s buf R = Some (Inr (buf', R')) \<and>
    conns (table_of (sess R')) s = Some 220 \<and> routes (table_of (sess R')) 220 = Some s \<and>
    routes (table_of (sess R')) 999 = routes (table_of (sess R)) 999 \<and>
    m_queue (write_queue R') = m_queue (write_queue R) \<and> pending (world R') s = []"
proof -
  let ?t = "table_of (sess R)"
  have e: "setw_setfill0 3 999 = ''999''" by code_simp
  have l: "length (setw_setfill0 3 d) = 3" using assms(6) by (rule id_field.enc_width)
  have pi: "parse_id ''999'' = 999" "parse_id ''220'' = 220" by code_simp+
  have no: "tbl_add s 999 ?t = ?t" by (simp add: tbl_add_def MAX_CLIENTS_COUNT_def)
  have "conns (tbl_add s 220 ?t) s = Some 220" "routes (tbl_add s 220 ?t) = (routes ?t)(220 \<mapsto> s)"
    using assms(3) by (simp_all add: tbl_add_def MAX_CLIENTS_COUNT_def domIff)
  moreover have "do_reads_spec (status (world R) s) s (pending (world R) s) ?t =
      (tbl_add s 220 ?t, [], [])"
    using assms(3,5,7) calculation l
    by (simp add: do_reads_spec_def buildIdMessage_def buildFirstMessage_def e reads_spec_handshake
        reads_spec_short frame_size_def pi no SOCKET_ERROR_def NONE_def Let_def)
  ultimately show ?thesis
    using quiet_stream.do_reads_run [OF assms(1-4)] by auto
qed

theorem node_999_becomes_220_witness:
  "\<exists>buf' R'. do_reads Win32 sample_api 5 sample_buf
       (sample_router 999 [''999'', buildFirstMessage 999 3] Open) = Some (Inr (buf', R')) \<and>
     conns (table_of (sess R')) 5 = Some 220"
proof -
  let ?R = "sample_router 999 [''999'', buildFirstMessage 999 3] Open"
  have "buildIdMessage 999 = ''999''" by code_simp
  then have p: "net_pending (world ?R) 5 = buildIdMessage 999 @ buildFirstMessage 999 3"
    by (simp add: sample_world)
  from node_999_becomes_220 [OF net_s.quiet_stream_axioms [of Win32 64] sample_inv sample_conns(1) _
      sample_world(2) _ p, of sample_buf] show ?thesis
    by (auto simp: id_ok_def)
qed

end
