(* ===== verification/Server_Properties.thy ===== *)
theory Server_Properties
  imports Router_Properties
begin

text \<open>
  The properties of the router's socket layer, of the write handler, of one pass of the event loop
  and of start-up.
\<close>

section \<open>Reading from a socket\<close>

text \<open>C30: Whatever \<^verbatim>\<open>recv\<close> does within its contract, the read loop ends: it returns the error code
  or a count of at most the size asked for, and it writes no byte of the buffer behind that
  size.\<close>

theorem read_async_returns_in_bounds:
  assumes "recv_api api" and "0 < n" and "n \<le> length buf"
  shows "\<exists>r buf' w'. read_async pf api s buf n w = Some (r, buf', w') \<and>
    (r = SOCKET_ERROR \<or> 0 \<le> r \<and> r \<le> int n) \<and> length buf' = length buf \<and>
    drop n buf' = drop n buf"
  by (rule recv_api.read_async_ok [OF assms, of pf s w]) blast

theorem read_async_returns_in_bounds_witness:
  "\<exists>r buf' w'. read_async Win32 sample_api 5 sample_buf 32
       (world (sample_router 7 [''007''] Broken)) = Some (r, buf', w') \<and>
     (r = SOCKET_ERROR \<or> 0 \<le> r \<and> r \<le> 32) \<and> drop 32 buf' = [NUL]"
proof -
  have d: "drop 32 sample_buf = [NUL]" by simp
  from read_async_returns_in_bounds [OF net_s.recv_api_axioms [of Win32 64], of 32 sample_buf Win32 5
      "world (sample_router 7 [''007''] Broken)"] show ?thesis
    unfolding d by auto
qed

text \<open>C15: When at least as many bytes have arrived as are asked for, the read loop fills the buffer
  with exactly the first of them, in order, however \<^verbatim>\<open>recv\<close> cuts them into pieces and whatever
  arrives meanwhile, and takes no byte more from the stream.\<close>

theorem read_async_reassembles:
  assumes "byte_stream api pending" and "0 < n" and "n \<le> length buf"
    and "n \<le> length (pending w s)"
  shows "\<exists>w' new. read_async pf api s buf n w =
      Some (int n, take n (pending w s) @ drop n buf, w') \<and>
    pending w' s = drop n (pending w s) @ new"
proof (rule byte_stream.read_async_full [OF assms, of pf])
  fix w' new
  assume "read_async pf api s buf n w = Some (int n, overwrite buf 0 (take n (pending w s)), w')"
    "pending w' s = drop n (pending w s) @ new"
  with assms(4) show ?thesis by (auto simp: overwrite_def min_absorb2)
qed

theorem read_async_reassembles_witness:
  "\<exists>w' new. read_async Win32 sample_api 5 ''xxxx'' 3
       (world (sample_router 7 [''0'', '''', ''0'', ''77''] Open)) = Some (3, ''007x'', w') \<and>
     net_pending w' 5 = ''7'' @ new"
proof -
  have p: "net_pending (world (sample_router 7 [''0'', '''', ''0'', ''77''] Open)) 5 = ''0077''"
    by (simp add: sample_world)
  from read_async_reassembles [OF net_s.byte_stream_axioms [of Win32 64], of 3 "''xxxx''"
      "world (sample_router 7 [''0'', '''', ''0'', ''77''] Open)" 5 Win32]
  show ?thesis unfolding p by simp
qed

section \<open>Writing\<close>

text \<open>C21: The write handler sends the task's message once to its socket if that socket is still
  connected, and otherwise does nothing. When the whole message was taken only the world changes;
  when it was not, a partial send included, the connection and the route of its identifier are
  deleted and everything else in the tables stays.\<close>

theorem do_writes_sends_or_removes:
  assumes "sessions_inv (sess R)"
  shows "do_writes api (s, m) R =
    (case conns (table_of (sess R)) s of
       None \<Rightarrow> R
     | Some i \<Rightarrow>
         (case api_send api s m (world R) of (k, w) \<Rightarrow>
            if k = int (length m) then R\<lparr>world := w\<rparr>
            else R\<lparr>world := w, sess := remove_locked s (sess R)\<rparr>)) \<and>
    sessions_inv (sess (do_writes api (s, m) R)) \<and>
    table_of (remove_locked s (sess R)) = tbl_remove s (table_of (sess R))"
proof (intro conjI)
  show "table_of (remove_locked s (sess R)) = tbl_remove s (table_of (sess R))"
    by (rule remove_locked_table [OF assms])
  show eq: "do_writes api (s, m) R =
    (case conns (table_of (sess R)) s of
       None \<Rightarrow> R
     | Some i \<Rightarrow>
         (case api_send api s m (world R) of (k, w) \<Rightarrow>
            if k = int (length m) then R\<lparr>world := w\<rparr>
            else R\<lparr>world := w, sess := remove_locked s (sess R)\<rparr>))"
  proof (cases "sessions_by_socket (sess R) s")
    case None
    then show ?thesis
      using conns_None_iff [OF assms, of s]
      by (simp add: do_writes_def find_session_by_socket_def)
  next
    case (Some r)
    then show ?thesis
      using conns_session_id [OF assms Some] sessions_inv_socket [OF assms Some]
      by (auto simp: do_writes_def find_session_by_socket_def send_to_client_def SOCKET_ERROR_def
          session_socket_def get_socket_def Let_def split: prod.splits)
  qed
  show "sessions_inv (sess (do_writes api (s, m) R))"
    unfolding eq using assms
    by (auto simp: remove_locked_inv split: option.splits prod.splits)
qed

theorem do_writes_sends_or_removes_witness:
  "conns (table_of (sess (do_writes sample_api (5, ''x'') (sample_router 7 [] Broken)))) 5 = None \<and>
   outbound (world (do_writes sample_api (5, ''x'') (sample_router 7 [] Open))) 5 = [''x'']"
proof -
  have c: "conns (table_of (sess (sample_router 7 [] c))) 5 = Some 7" for c
    by (simp add: sample_conns)
  have "conns (tbl_remove 5 (table_of (sess (sample_router 7 [] Broken)))) 5 = None"
    by (simp add: tbl_remove_def c)
  with do_writes_sends_or_removes [OF sample_inv, of sample_api 5 "''x''" 7 "[]"] show ?thesis
    by (simp add: c net_server_def net_send_def sample_world) (simp add: sample_router_def sample_net_def)
qed

section \<open>The event loop\<close>

lemma push_ready_fold:
  "push_ready server ss q = fold (\<lambda>x. push x True) (filter (\<lambda>s. s \<noteq> server) ss) q"
  by (induction ss arbitrary: q) simp_all

lemma m_queue_push_ready:
  assumes "remdups_adj (m_queue q) = m_queue q"
  shows "m_queue (push_ready server ss q) = remdups_adj (m_queue q @ filter (\<lambda>s. s \<noteq> server) ss)"
  using sq.items_put_all_skip [of q "m_queue q"] assms by (simp add: push_ready_fold)

lemma accept_client_new:
  assumes "sessions_inv st" and "conns (table_of st) c = None"
  obtains st' where "accept_client c st = Inr st'" and "sessions_inv st'"
    and "table_of st' = tbl_accept c (table_of st)"
  using tbl.accept_iff [OF assms(1), of c] tbl.inv_accept [OF assms(1), of c]
    accept_client_table [OF assms(1), of c] assms(2) by blast

text \<open>C20: One pass of the event loop, when \<^verbatim>\<open>select\<close> succeeds: it ends without locking
  \<^verbatim>\<open>sessions_mutex_\<close> twice; the sockets that are ready and are not the listening socket are
  appended to the read queue, without repeating a neighbour, and all of them are accepted
  connections; if the listening socket is ready, one connection is accepted and added without an
  identifier, and when that fails the ready sockets are not queued in this pass.\<close>

theorem event_pass_queues_ready:
  assumes "fd_set_api api cap" and "0 < cap" and "descriptor_api api opened"
    and "sessions_inv (sess R)" and "distinct (server # get_accpeted_sockets (sess R))"
    and "set (get_accpeted_sockets (sess R)) \<subseteq> opened (world R)"
    and "SOCKET_ERROR \<notin> opened (world R)"
    and "remdups_adj (m_queue (read_queue R)) = m_queue (read_queue R)"
    and "reset_fd_set api fds server (get_accpeted_sockets (sess R)) = (fds1, max_sd)"
    and "api_select api (max_sd + 1) fds1 (world R) = (activity, rfds, w1)"
    and "activity \<noteq> SOCKET_ERROR"
  shows "\<exists>R'. event_pass pf api server fds R = Inr (rfds, R') \<and> sessions_inv (sess R') \<and>
    write_queue R' = write_queue R \<and>
    set (filter (\<lambda>s. s \<noteq> server) (api_fd_array api rfds)) \<subseteq> set (get_accpeted_sockets (sess R)) \<and>
    (case (if api_FD_ISSET api server rfds then Some (tcp_accept_client pf api server w1) else None) of
       None \<Rightarrow> world R' = w1 \<and> sess R' = sess R \<and>
         m_queue (read_queue R') = remdups_adj (m_queue (read_queue R) @
           filter (\<lambda>s. s \<noteq> server) (api_fd_array api rfds))
     | Some (c, w2) \<Rightarrow> world R' = w2 \<and>
         (if c = SOCKET_ERROR then sess R' = sess R \<and> read_queue R' = read_queue R
          else table_of (sess R') = tbl_accept c (table_of (sess R)) \<and>
            m_queue (read_queue R') = remdups_adj (m_queue (read_queue R) @
              filter (\<lambda>s. s \<noteq> server) (api_fd_array api rfds))))"
proof -
  note sel = fd_set_api.select_kept [OF assms(1,10)]
  from sel assms(11) have act: "take (nat activity) (api_fd_array api rfds) = api_fd_array api rfds"
    and sub: "set (api_fd_array api rfds) \<subseteq> set (api_fd_array api fds1)" by auto
  have "set (api_fd_array api fds1) \<subseteq> set (server # get_accpeted_sockets (sess R))"
    using fd_set_api.reset_fd_set_ok(1) [OF assms(1,5,2), of fds] assms(9)
    by (metis fst_conv set_take_subset)
  with sub have ready: "set (filter (\<lambda>s. s \<noteq> server) (api_fd_array api rfds)) \<subseteq>
      set (get_accpeted_sockets (sess R))" by auto
  have w1: "opened w1 = opened (world R)"
    by (rule descriptor_api.select_opened [OF assms(3,10)])
  show ?thesis
  proof (cases "api_FD_ISSET api server rfds")
    case False
    with assms(4,11) ready show ?thesis
      by (simp add: event_pass_def assms(9,10) act Let_def m_queue_push_ready [OF assms(8)])
  next
    case set: True
    obtain c w2 where acc: "tcp_accept_client pf api server w1 = (c, w2)" by fastforce
    show ?thesis
    proof (cases "c = SOCKET_ERROR")
      case True
      with set acc assms(4,11) ready show ?thesis
        by (simp add: event_pass_def assms(9,10) Let_def)
    next
      case False
      with descriptor_api.tcp_accept_client_opened [OF assms(3) acc] assms(7)
      have "c \<notin> opened (world R)" by (auto simp: w1)
      then have "conns (table_of (sess R)) c = None"
        using assms(6) sessions_inv_accepted [OF assms(4)] conns_None_iff [OF assms(4), of c]
        by (auto simp: get_accpeted_sockets_def)
      from accept_client_new [OF assms(4) this] obtain st' where
        "accept_client c (sess R) = Inr st'" "sessions_inv st'"
        "table_of st' = tbl_accept c (table_of (sess R))" by blast
      with set False acc assms(11) ready show ?thesis
        by (simp add: event_pass_def assms(9,10) act Let_def m_queue_push_ready [OF assms(8)])
    qed
  qed
qed

lemma sample_select:
  "reset_fd_set sample_api [] 3 (get_accpeted_sockets (sess (sample_router 7 [''0''] Open))) = ([3, 4, 5], 5)"
  "api_select sample_api (5 + 1) [3, 4, 5] (world (sample_router 7 [''0''] Open)) =
     (1, [5], world (sample_router 7 [''0''] Open))"
  by (simp_all add: reset_fd_set_def sample_router_def sample_defs get_accpeted_sockets_def net_server_def
      net_FD_SET_def net_select_def net_ready_def sample_net_def net_pending_def)

theorem event_pass_queues_ready_witness:
  "\<exists>R'. event_pass Win32 sample_api 3 [] (sample_router 7 [''0''] Open) = Inr ([5], R') \<and>
     m_queue (read_queue R') = [5]"
proof -
  let ?R = "sample_router 7 [''0''] Open"
  have a: "get_accpeted_sockets (sess ?R) = [4, 5]"
    by (simp add: sample_router_def sample_defs get_accpeted_sockets_def)
  have "distinct (3 # get_accpeted_sockets (sess ?R))" by (simp add: a)
  moreover have "set (get_accpeted_sockets (sess ?R)) \<subseteq> set (open_socks (world ?R))"
    "SOCKET_ERROR \<notin> set (open_socks (world ?R))"
    by (simp_all add: a) (simp_all add: sample_router_def sample_net_def SOCKET_ERROR_def)
  moreover have q: "m_queue (read_queue ?R) = []" by (simp add: sample_router_def squeue0_def)
  ultimately show ?thesis
    using event_pass_queues_ready [OF net_f.fd_set_api_axioms [of Win32 64] _
        net_d.descriptor_api_axioms [of Win32 64] sample_inv _ _ _ _ sample_select, of Win32]
    by (auto simp: SOCKET_ERROR_def net_server_def)
qed

text \<open>C39: The descriptor set handed to \<^verbatim>\<open>select\<close> holds the listening socket and then the accepted
  sockets in their order, as many as fit, and the number handed to it is one above the greatest
  socket. So with more accepted connections than fit, the later ones are in no set and no event
  of theirs is ever seen.\<close>

theorem reset_fd_set_capacity:
  assumes "fd_set_api api cap" and "distinct (server # clients)" and "0 < cap"
  shows "api_fd_array api (fst (reset_fd_set api fds server clients)) = take cap (server # clients) \<and>
    snd (reset_fd_set api fds server clients) = Max (set (server # clients)) \<and>
    (\<forall>k. cap \<le> Suc k \<and> k < length clients \<longrightarrow>
       \<not> api_FD_ISSET api (clients ! k) (fst (reset_fd_set api fds server clients)))"
proof -
  note ok = fd_set_api.reset_fd_set_ok [OF assms]
  have "foldl max server clients = Max (set (server # clients))"
    unfolding Max.set_eq_fold foldl_conv_fold by (simp add: max.commute)
  moreover have "\<not> api_FD_ISSET api (clients ! k) (fst (reset_fd_set api fds server clients))"
    if "cap \<le> Suc k" "k < length clients" for k
  proof -
    have "i = Suc k" if "i < length (server # clients)" "(server # clients) ! i = clients ! k" for i
      using nth_eq_iff_index_eq [OF assms(2) that(1), of "Suc k"] that(2) \<open>k < length clients\<close> by simp
    then have "clients ! k \<notin> set (take cap (server # clients))"
      using \<open>cap \<le> Suc k\<close> by (auto simp: in_set_conv_nth)
    then show ?thesis by (simp add: fd_set_api.fd_isset [OF assms(1)] ok(1))
  qed
  ultimately show ?thesis using ok by simp
qed

theorem reset_fd_set_capacity_witness:
  "\<not> api_FD_ISSET (net_server Win32 3) 6 (fst (reset_fd_set (net_server Win32 3) [] 3 [4, 5, 6])) \<and>
   api_fd_array (net_server Win32 3) (fst (reset_fd_set (net_server Win32 3) [] 3 [4, 5, 6])) = [3, 4, 5]"
proof -
  have "distinct [3, 4, 5, 6 :: int]" and "0 < (3 :: nat)" by simp_all
  from reset_fd_set_capacity [OF net_f.fd_set_api_axioms [of Win32 3] this, of "[]"]
  have cap: "api_fd_array (net_server Win32 3) (fst (reset_fd_set (net_server Win32 3) [] 3 [4, 5, 6])) =
      take 3 [3, 4, 5, 6]"
    "\<forall>k. 3 \<le> Suc k \<and> k < length [4, 5, 6 :: int] \<longrightarrow> \<not> api_FD_ISSET (net_server Win32 3)
      ([4, 5, 6] ! k) (fst (reset_fd_set (net_server Win32 3) [] 3 [4, 5, 6]))"
    by blast+
  from spec [OF cap(2), of 2] cap(1) show ?thesis by simp
qed

section \<open>Start-up\<close>

text \<open>Start-up creates exactly as many workers as asked for, with the numbers from 0 on, the
  readers first; the readers are half of them, rounded up, and the writers half of them, rounded
  down.\<close>

lemma spawn_workers_split:
  "map (case_worker id id) (spawn_workers n) = [0..<unat n] \<and>
   length (filter (case_worker (\<lambda>_. True) (\<lambda>_. False)) (spawn_workers n)) = (unat n + 1) div 2 \<and>
   length (filter (case_worker (\<lambda>_. False) (\<lambda>_. True)) (spawn_workers n)) = unat n div 2"
proof -
  have r: "read_thread_count n = (unat n + 1) div 2" by (simp add: read_thread_count_def) presburger
  then have le: "read_thread_count n \<le> unat n" by linarith
  have "unat n - (unat n + 1) div 2 = unat n div 2" by presburger
  moreover have "[0..<unat n] = [0..<read_thread_count n] @ [read_thread_count n..<unat n]"
    using upt_add_eq_append [of 0 "read_thread_count n" "unat n - read_thread_count n"] le by simp
  ultimately show ?thesis by (simp add: spawn_workers_def comp_def filter_map r)
qed

lemma htons_port: "htons (sint (word_of_int n :: 32 word)) = word_of_int (n mod 65536)"
proof -
  have "n mod 65536 = take_bit 16 n" by (simp add: take_bit_eq_mod)
  then show ?thesis
    unfolding htons_def by (auto intro!: bit_word_eqI simp: bit_simps)
qed

text \<open>C40: The port on the command line is taken modulo 65536, and when the listening socket cannot
  be bound to it the router does not return the status code that \<^verbatim>\<open>Router::start\<close> documents:
  the workers are already running, and destroying their thread objects terminates the
  program.\<close>

theorem start_without_port_terminates:
  assumes "stoi p = Inr n"
    and "\<forall>s a w. fst (api_bind api s a (word_of_int (n mod 65536)) w) < 0"
  shows "\<exists>w'. router_main pf api [prog, p] w = Inr (Std_terminate w')"
proof -
  have sp: "spawn_workers THREAD_COUNT \<noteq> []" by code_simp
  have "fst (start_tcp_server pf api (sint (word_of_int n :: 32 word)) w') = SOCKET_ERROR" for w'
    using assms(2) by (simp add: start_tcp_server_def htons_port case_prod_beta)
  then show ?thesis
    using assms(1) sp by (simp add: router_main_def Router_start_def Let_def case_prod_beta)
qed

theorem start_without_port_terminates_witness:
  "\<exists>w'. router_main Win32 (sample_api\<lparr>api_bind := \<lambda>s a p w. (if p = 4464 then -1 else 0, w)\<rparr>)
     [''router'', ''70000''] (sample_net (\<lambda>_. []) Open) = Inr (Std_terminate w')"
proof -
  have "stoi ''70000'' = Inr 70000" by code_simp
  from start_without_port_terminates [OF this, of "sample_api\<lparr>api_bind := \<lambda>s a p w. (if p = 4464 then -1 else 0, w)\<rparr>"]
  show ?thesis by simp
qed

end
