(* ===== verification/Tcp_Socket.thy ===== *)
theory Tcp_Socket
  imports Os_Api
begin

text \<open>
  The class \<^verbatim>\<open>TCPSocket\<close> of the node (\<^verbatim>\<open>node/src/tcp_socket.cpp\<close>): connecting to the
  router, receiving into the internal buffer, sending and closing. The constructor leaves the
  descriptor and the bytes of the buffer uninitialised; their values are arguments of the model.
\<close>

section \<open>The code\<close>

definition NO_ERR :: int where
  "NO_ERR = 0"

definition BUFFER_SIZE :: nat where
  "BUFFER_SIZE = 32 * 100"

record tcp_socket =
  server_ip :: string
  server_port :: int
  server_addr :: "32 word \<times> port"
  tcp_sock :: sock
  tcp_buffer :: buffer

definition TCPSocket :: "string \<Rightarrow> int \<Rightarrow> 32 word \<times> port \<Rightarrow> sock \<Rightarrow> buffer \<Rightarrow> tcp_socket" where
  "TCPSocket ip prt uninit_addr uninit_sock uninit_buffer =
     \<lparr>server_ip = ip, server_port = prt, server_addr = uninit_addr, tcp_sock = uninit_sock,
      tcp_buffer = take BUFFER_SIZE uninit_buffer\<rparr>"

definition closeSocket :: "platform \<Rightarrow> ('w, 'x) sock_api_scheme \<Rightarrow> tcp_socket \<Rightarrow> 'w \<Rightarrow> 'w" where
  "closeSocket pf api ts w =
     (case pf of
        Win32 \<Rightarrow> api_cleanup api (api_close api (tcp_sock ts) w)
      | Posix \<Rightarrow> api_close api (tcp_sock ts) w)"

text \<open>The destructor frees the buffer and closes the socket.\<close>

definition TCPSocket_destructor ::
    "platform \<Rightarrow> ('w, 'x) sock_api_scheme \<Rightarrow> tcp_socket \<Rightarrow> 'w \<Rightarrow> 'w" where
  "TCPSocket_destructor pf api ts w = closeSocket pf api ts w"

definition connect_to_server ::
    "platform \<Rightarrow> ('w, 'x) client_api_scheme \<Rightarrow> tcp_socket \<Rightarrow> 'w \<Rightarrow> int \<times> tcp_socket \<times> 'w" where
  "connect_to_server pf api ts w0 =
     (case (if pf = Win32 then api_startup api w0 else (0, w0)) of (err, w1) \<Rightarrow>
      if err \<noteq> 0 then (1, ts, w1)
      else case api_socket api w1 of (s, w2) \<Rightarrow>
      let ts1 = ts\<lparr>tcp_sock := s\<rparr> in
      if s = -1 then (1, ts1, w2)
      else
        let addr = (api_inet_pton api (server_ip ts1), htons (server_port ts1));
            ts2 = ts1\<lparr>server_addr := addr\<rparr>
        in case api_connect api s (fst addr) (snd addr) w2 of (r, w3) \<Rightarrow>
           if r = -1 then (1, ts2, closeSocket pf api ts2 w3) else (NO_ERR, ts2, w3))"

definition recvMessage ::
    "('w, 'x) sock_api_scheme \<Rightarrow> tcp_socket \<Rightarrow> nat \<Rightarrow> 'w \<Rightarrow> int \<times> int \<times> tcp_socket \<times> 'w" where
  "recvMessage api ts needed_bytes w =
     (let needed = (if needed_bytes \<ge> BUFFER_SIZE - 1 then BUFFER_SIZE - 1 else needed_bytes) in
      case api_recv api (tcp_sock ts) needed w of (bytes_received, bs, w1) \<Rightarrow>
      let ts1 = ts\<lparr>tcp_buffer := overwrite (tcp_buffer ts) 0 bs\<rparr> in
      if bytes_received \<le> 0 then (1, bytes_received, ts1, w1)
      else (NO_ERR, bytes_received,
            ts1\<lparr>tcp_buffer := (tcp_buffer ts1)[nat bytes_received := NUL]\<rparr>, w1))"

definition sendMessage :: "('w, 'x) sock_api_scheme \<Rightarrow> tcp_socket \<Rightarrow> string \<Rightarrow> 'w \<Rightarrow> int \<times> 'w" where
  "sendMessage api ts message w = api_send api (tcp_sock ts) message w"

definition getBuffer :: "tcp_socket \<Rightarrow> buffer" where
  "getBuffer ts = tcp_buffer ts"

section \<open>Receiving stays inside the buffer\<close>

context recv_api
begin

lemma recvMessage_bounds:
  assumes len: "length (tcp_buffer ts) = BUFFER_SIZE"
    and rm: "recvMessage api ts needed w = (err, n, ts', w')"
  shows "length (tcp_buffer ts') = BUFFER_SIZE" and "tcp_sock ts' = tcp_sock ts"
    and "err = NO_ERR \<Longrightarrow> 0 < n \<and> n \<le> int needed \<and> n < int BUFFER_SIZE \<and>
      tcp_buffer ts' ! nat n = NUL"
    and "err = NO_ERR \<or> err = 1 \<and> n \<le> 0"
proof -
  define m where "m = (if needed \<ge> BUFFER_SIZE - 1 then BUFFER_SIZE - 1 else needed)"
  obtain k bs w1 where rc: "api_recv api (tcp_sock ts) m w = (k, bs, w1)" by (metis prod_cases3)
  have bs: "length bs \<le> m" using recv_length [OF rc] .
  have m: "m < BUFFER_SIZE" "m \<le> needed" by (auto simp: m_def BUFFER_SIZE_def)
  have l: "length (overwrite (tcp_buffer ts) 0 bs) = BUFFER_SIZE" using bs m len by simp
  note eq = rm [unfolded recvMessage_def Let_def, folded m_def, unfolded rc]
  show "length (tcp_buffer ts') = BUFFER_SIZE" "tcp_sock ts' = tcp_sock ts"
    using eq l by (auto split: if_splits)
  show "err = NO_ERR \<or> err = 1 \<and> n \<le> 0" using eq by (auto split: if_splits)
  assume "err = NO_ERR"
  with eq have k: "n = k" "0 < k"
    "tcp_buffer ts' = (overwrite (tcp_buffer ts) 0 bs)[nat k := NUL]"
    by (auto simp: NO_ERR_def split: if_splits)
  with recv_pos [OF rc] m l show "0 < n \<and> n \<le> int needed \<and> n < int BUFFER_SIZE \<and>
      tcp_buffer ts' ! nat n = NUL" by auto
qed

text \<open>The bytes that were received stand at the start of the buffer.\<close>

lemma recvMessage_data:
  assumes "length (tcp_buffer ts) = BUFFER_SIZE" and "needed < BUFFER_SIZE - 1"
    and "api_recv api (tcp_sock ts) needed w = (k, bs, w')" and "0 < k"
  shows "recvMessage api ts needed w =
    (NO_ERR, k, ts\<lparr>tcp_buffer := bs @ NUL # drop (Suc (length bs)) (tcp_buffer ts)\<rparr>, w')"
proof -
  have k: "length bs = nat k" "nat k \<le> needed" using recv_pos [OF assms(3,4)] by auto
  then have "drop (length bs) (tcp_buffer ts) =
      tcp_buffer ts ! length bs # drop (Suc (length bs)) (tcp_buffer ts)"
    using assms(1,2) by (simp add: Cons_nth_drop_Suc)
  then have "(overwrite (tcp_buffer ts) 0 bs)[nat k := NUL] =
      bs @ NUL # drop (Suc (length bs)) (tcp_buffer ts)"
    using k by (simp add: overwrite_def list_update_append)
  then show ?thesis using assms(2,3,4) by (simp add: recvMessage_def Let_def)
qed

end

end
