(* ===== verification/Node_Loop.thy ===== *)
theory Node_Loop
  imports Node_Message Tcp_Socket
begin

text \<open>
  The class \<^verbatim>\<open>Node\<close> (\<^verbatim>\<open>node/src/node.cpp\<close>) and the node's \<^verbatim>\<open>main\<close>: sending with
  retries, subscribing, the first message, and the two nested loops of \<^verbatim>\<open>start\<close>. The inner
  loop need not end and the outer one never does by itself, so both are partial functions with
  \<open>None\<close> for not returning; an exception of \<^verbatim>\<open>Message::processMessage\<close> is the only way out.
\<close>

section \<open>The code\<close>

definition MAX_RETRY :: nat where
  "MAX_RETRY = 3"

definition MESSAGE_LENGTH :: nat where
  "MESSAGE_LENGTH = 32"

text \<open>\<^verbatim>\<open>sleep\<close>: milliseconds for Windows, microseconds for the others.\<close>

definition sleep :: "platform \<Rightarrow> ('w, 'x) client_api_scheme \<Rightarrow> int \<Rightarrow> 'w \<Rightarrow> 'w" where
  "sleep pf api milliseconds w =
     (case pf of
        Win32 \<Rightarrow> api_Sleep api milliseconds w
      | Posix \<Rightarrow> api_usleep api (milliseconds * 1000) w)"

record node =
  node_id :: int
  node_dstId :: int
  node_tcp :: tcp_socket
  initiate_messaging :: bool

definition Node :: "int \<Rightarrow> int \<Rightarrow> bool \<Rightarrow> tcp_socket \<Rightarrow> node" where
  "Node nodeid dstid initiate ts =
     \<lparr>node_id = nodeid, node_dstId = dstid, node_tcp = ts, initiate_messaging = initiate\<rparr>"

definition Node_destructor :: "platform \<Rightarrow> ('w, 'x) sock_api_scheme \<Rightarrow> node \<Rightarrow> 'w \<Rightarrow> 'w" where
  "Node_destructor pf api nd w = TCPSocket_destructor pf api (node_tcp nd) w"

function send_loop ::
    "('w, 'x) sock_api_scheme \<Rightarrow> tcp_socket \<Rightarrow> string \<Rightarrow> int \<Rightarrow> nat \<Rightarrow> 'w \<Rightarrow> int \<times> 'w" where
  "send_loop api ts msg byte_send retry_count w =
     (if byte_send \<le> 0 \<and> retry_count < MAX_RETRY then
        (case sendMessage api ts msg w of (byte_send', w') \<Rightarrow>
           send_loop api ts msg byte_send' (retry_count + 1) w')
      else (byte_send, w))"
  by pat_completeness auto
termination
  by (relation "measure (\<lambda>(api, ts, msg, byte_send, retry_count, w). MAX_RETRY - retry_count)") auto

declare send_loop.simps [simp del]

definition send_message ::
    "('w, 'x) sock_api_scheme \<Rightarrow> node \<Rightarrow> string \<Rightarrow> 'w \<Rightarrow> int \<times> 'w" where
  "send_message api nd msg w =
     (case send_loop api (node_tcp nd) msg 0 0 w of (byte_send, w') \<Rightarrow>
        if byte_send > 0 then (NO_ERR, w') else (1, w'))"

definition subscribe_to_router :: "('w, 'x) sock_api_scheme \<Rightarrow> node \<Rightarrow> 'w \<Rightarrow> int \<times> 'w" where
  "subscribe_to_router api nd w = send_message api nd (buildIdMessage (node_id nd)) w"

definition send_initiator_message :: "('w, 'x) sock_api_scheme \<Rightarrow> node \<Rightarrow> 'w \<Rightarrow> int \<times> 'w" where
  "send_initiator_message api nd w =
     (if initiate_messaging nd
      then send_message api nd (buildFirstMessage (node_id nd) (node_dstId nd)) w
      else (0, w))"

definition closeConnection :: "platform \<Rightarrow> ('w, 'x) sock_api_scheme \<Rightarrow> node \<Rightarrow> 'w \<Rightarrow> 'w" where
  "closeConnection pf api nd w = closeSocket pf api (node_tcp nd) w"

text \<open>
  The inner loop \<^verbatim>\<open>while (err == NO_ERR)\<close>. It ends when receiving fails, after closing the
  connection, or when sending the reply fails; \<open>Inl\<close> is an exception of
  \<^verbatim>\<open>processMessage\<close>, with the node and the world at that moment.
\<close>

partial_function (option) receive_loop ::
    "platform \<Rightarrow> ('w, 'x) sock_api_scheme \<Rightarrow> node \<Rightarrow> 'w \<Rightarrow>
     ((cxx_exn \<times> node \<times> 'w) + (node \<times> 'w)) option" where
  "receive_loop pf api nd w =
     (case recvMessage api (node_tcp nd) MESSAGE_LENGTH w of (err, recv_bytes, ts, w1) \<Rightarrow>
      let nd1 = nd\<lparr>node_tcp := ts\<rparr> in
      if err \<noteq> NO_ERR then Some (Inr (nd1, closeConnection pf api nd1 w1))
      else if recv_bytes = int MESSAGE_LENGTH then
        (case processMessage (node_id nd1) (getBuffer ts) recv_bytes of
           Inl e \<Rightarrow> Some (Inl (e, nd1, w1))
         | Inr reply \<Rightarrow>
             (case send_message api nd1 reply w1 of (err2, w2) \<Rightarrow>
                if err2 = NO_ERR then receive_loop pf api nd1 w2 else Some (Inr (nd1, w2))))
      else receive_loop pf api nd1 w1)"

text \<open>One turn of the outer loop \<^verbatim>\<open>while (true)\<close>.\<close>

definition start_turn ::
    "platform \<Rightarrow> ('w, 'x) client_api_scheme \<Rightarrow> node \<Rightarrow> 'w \<Rightarrow>
     ((cxx_exn \<times> node \<times> 'w) + (node \<times> 'w)) option" where
  "start_turn pf api nd w =
     (case connect_to_server pf api (node_tcp nd) w of (errcode, ts, w1) \<Rightarrow>
      let nd1 = nd\<lparr>node_tcp := ts\<rparr> in
      if errcode = NO_ERR then
        (case subscribe_to_router api nd1 w1 of (err, w2) \<Rightarrow>
         if err \<noteq> NO_ERR then Some (Inr (nd1, closeConnection pf api nd1 w2))
         else case send_initiator_message api nd1 w2 of (err, w3) \<Rightarrow>
         if err \<noteq> NO_ERR then Some (Inr (nd1, closeConnection pf api nd1 w3))
         else receive_loop pf api nd1 w3)
      else Some (Inr (nd1, sleep pf api 5000 w1)))"

partial_function (option) Node_start ::
    "platform \<Rightarrow> ('w, 'x) client_api_scheme \<Rightarrow> node \<Rightarrow> 'w \<Rightarrow> (cxx_exn \<times> node \<times> 'w) option" where
  "Node_start pf api nd w =
     Option.bind (start_turn pf api nd w)
       (\<lambda>res. case res of
          Inl e \<Rightarrow> Some e
        | Inr (nd1, w1) \<Rightarrow> Node_start pf api nd1 w1)"

text \<open>\<^verbatim>\<open>main\<close>: the exit code and the world in which the program ends, \<open>None\<close> while the node
  runs. An exception destroys the node, which closes its socket.\<close>

definition node_main ::
    "platform \<Rightarrow> ('w, 'x) client_api_scheme \<Rightarrow> 32 word \<times> port \<Rightarrow> sock \<Rightarrow> buffer \<Rightarrow> string list \<Rightarrow> 'w \<Rightarrow>
     (int \<times> 'w) option" where
  "node_main pf api uninit_addr uninit_sock uninit_buffer argv w =
     (if length argv \<noteq> 5 then Some (1, w)
      else case stoi (argv ! 1) of Inl _ \<Rightarrow> Some (0, w) | Inr nodeid \<Rightarrow>
           case stoi (argv ! 2) of Inl _ \<Rightarrow> Some (0, w) | Inr dstid \<Rightarrow>
           case stoi (argv ! 4) of Inl _ \<Rightarrow> Some (0, w) | Inr router_port \<Rightarrow>
           let nd = Node nodeid dstid True
             (TCPSocket (argv ! 3) router_port uninit_addr uninit_sock uninit_buffer)
           in case Node_start pf api nd w of
                None \<Rightarrow> None
              | Some (e, nd', w') \<Rightarrow> Some (0, Node_destructor pf api nd' w'))"

section \<open>Sending with retries\<close>

text \<open>The specification: try up to \<open>k\<close> times; the first attempt that sends something succeeds.\<close>

fun tries :: "nat \<Rightarrow> ('w, 'x) sock_api_scheme \<Rightarrow> sock \<Rightarrow> string \<Rightarrow> 'w \<Rightarrow> int \<times> 'w" where
  "tries 0 api s msg w = (1, w)"
| "tries (Suc k) api s msg w =
     (case api_send api s msg w of (b, w') \<Rightarrow> if 0 < b then (NO_ERR, w') else tries k api s msg w')"

lemma send_loop_done: "0 < b \<Longrightarrow> send_loop api ts msg b k w = (b, w)"
  by (simp add: send_loop.simps)

lemma send_loop_tries:
  "b \<le> 0 \<Longrightarrow> k \<le> MAX_RETRY \<Longrightarrow>
   (case send_loop api ts msg b k w of (b', w') \<Rightarrow> if 0 < b' then (NO_ERR, w') else (1, w')) =
   tries (MAX_RETRY - k) api (tcp_sock ts) msg w"
proof (induction "MAX_RETRY - k" arbitrary: b k w)
  case 0
  then show ?case by (simp add: send_loop.simps)
next
  case (Suc n)
  obtain b1 w1 where s: "api_send api (tcp_sock ts) msg w = (b1, w1)" by fastforce
  have k: "k < MAX_RETRY" "MAX_RETRY - k = Suc (MAX_RETRY - Suc k)" using Suc.hyps(2) by auto
  have "send_loop api ts msg b k w = send_loop api ts msg b1 (Suc k) w1"
    using Suc.prems(1) k(1) s by (subst send_loop.simps) (simp add: sendMessage_def)
  with k s Suc.hyps(1) [of "Suc k" b1 w1] Suc.hyps(2) show ?case
    by (cases "0 < b1") (auto simp: send_loop_done not_less)
qed

lemma send_message_tries:
  "send_message api nd msg w = tries MAX_RETRY api (tcp_sock (node_tcp nd)) msg w"
  using send_loop_tries [of 0 0 api "node_tcp nd" msg w] by (simp add: send_message_def)

context send_api
begin

text \<open>An empty message is never sent successfully.\<close>

lemma tries_empty: "fst (tries k api s [] w) = 1"
proof (induction k arbitrary: w)
  case (Suc k)
  obtain b w' where s: "api_send api s [] w = (b, w')" by fastforce
  from send_result [OF this] Suc s show ?case by (auto simp: SOCKET_ERROR_def)
qed simp

lemma send_message_empty: "fst (send_message api nd [] w) = 1"
  by (simp add: send_message_tries tries_empty)

end

section \<open>One received message\<close>

context recv_api
begin

text \<open>What the loop does with 32 received bytes, whatever they are.\<close>

lemma processMessage_prefix:
  assumes "length f = 32" shows "processMessage i (f @ r) 32 = processMessage i f 32"
proof -
  have "substr (f @ r) k n = substr f k n" if "k + n \<le> 32" for k n
    using assms that by (simp add: substr_def)
  then show ?thesis by (simp add: processMessage_def)
qed

lemma receive_loop_frame:
  assumes buf: "length (tcp_buffer (node_tcp nd)) = BUFFER_SIZE"
    and rc: "api_recv api (tcp_sock (node_tcp nd)) 32 w = (32, f, w1)"
  obtains nd1 where "receive_loop pf api nd w =
      (case processMessage (node_id nd) f 32 of
         Inl e \<Rightarrow> Some (Inl (e, nd1, w1))
       | Inr reply \<Rightarrow> (case send_message api nd1 reply w1 of
           (err, w2) \<Rightarrow> if err = NO_ERR then receive_loop pf api nd1 w2 else Some (Inr (nd1, w2))))"
    and "length (tcp_buffer (node_tcp nd1)) = BUFFER_SIZE" and "node_id nd1 = node_id nd"
    and "tcp_sock (node_tcp nd1) = tcp_sock (node_tcp nd)"
proof -
  let ?ts = "node_tcp nd"
  let ?buf = "f @ NUL # drop 33 (tcp_buffer ?ts)"
  let ?nd = "nd\<lparr>node_tcp := ?ts\<lparr>tcp_buffer := ?buf\<rparr>\<rparr>"
  have l: "length f = 32" using recv_pos [OF rc] by simp
  have rm: "recvMessage api ?ts 32 w = (NO_ERR, 32, ?ts\<lparr>tcp_buffer := ?buf\<rparr>, w1)"
    using recvMessage_data [OF buf _ rc] l by (simp add: BUFFER_SIZE_def)
  have "receive_loop pf api nd w =
      (case processMessage (node_id nd) f 32 of
         Inl e \<Rightarrow> Some (Inl (e, ?nd, w1))
       | Inr reply \<Rightarrow> (case send_message api ?nd reply w1 of
           (err, w2) \<Rightarrow> if err = NO_ERR then receive_loop pf api ?nd w2 else Some (Inr (?nd, w2))))"
    by (subst receive_loop.simps)
      (simp add: MESSAGE_LENGTH_def rm getBuffer_def processMessage_prefix [OF l] Let_def)
  moreover have "length ?buf = BUFFER_SIZE" using l buf by (simp add: BUFFER_SIZE_def)
  ultimately show thesis using that [of ?nd] by simp
qed

text \<open>
  A message that arrives in one piece and is addressed to this node is answered and the loop goes
  on; one that is addressed to another node makes the node send the empty string.
\<close>

lemma receive_loop_message:
  assumes buf: "length (tcp_buffer (node_tcp nd)) = BUFFER_SIZE" and m: "msg_ok m"
    and rc: "api_recv api (tcp_sock (node_tcp nd)) 32 w = (32, encode_msg m, w1)"
  obtains nd1 where "receive_loop pf api nd w =
      (case send_message api nd1 (if m_dst m = node_id nd then encode_msg (reply_msg m) else []) w1 of
         (err, w2) \<Rightarrow> if err = NO_ERR then receive_loop pf api nd1 w2 else Some (Inr (nd1, w2)))"
    and "length (tcp_buffer (node_tcp nd1)) = BUFFER_SIZE" and "node_id nd1 = node_id nd"
    and "tcp_sock (node_tcp nd1) = tcp_sock (node_tcp nd)"
proof (rule receive_loop_frame [OF buf rc])
  fix nd1
  assume "receive_loop pf api nd w =
      (case processMessage (node_id nd) (encode_msg m) 32 of
         Inl e \<Rightarrow> Some (Inl (e, nd1, w1))
       | Inr reply \<Rightarrow> (case send_message api nd1 reply w1 of
           (err, w2) \<Rightarrow> if err = NO_ERR then receive_loop pf api nd1 w2 else Some (Inr (nd1, w2))))"
    "length (tcp_buffer (node_tcp nd1)) = BUFFER_SIZE" "node_id nd1 = node_id nd"
    "tcp_sock (node_tcp nd1) = tcp_sock (node_tcp nd)"
  with that [of nd1] processMessage_encode [OF m, of "node_id nd" "[]"] show thesis by simp
qed

text \<open>A piece of another length is dropped.\<close>

lemma receive_loop_short:
  assumes buf: "length (tcp_buffer (node_tcp nd)) = BUFFER_SIZE"
    and rc: "api_recv api (tcp_sock (node_tcp nd)) 32 w = (k, bs, w1)" and "0 < k" and "k < 32"
  obtains nd1 where "receive_loop pf api nd w = receive_loop pf api nd1 w1"
    and "length (tcp_buffer (node_tcp nd1)) = BUFFER_SIZE" and "node_id nd1 = node_id nd"
    and "tcp_sock (node_tcp nd1) = tcp_sock (node_tcp nd)"
proof -
  let ?ts = "(node_tcp nd)\<lparr>tcp_buffer := bs @ NUL # drop (Suc (length bs)) (tcp_buffer (node_tcp nd))\<rparr>"
  have rm: "recvMessage api (node_tcp nd) 32 w = (NO_ERR, k, ?ts, w1)"
    using recvMessage_data [OF buf _ rc assms(3)] by (simp add: BUFFER_SIZE_def)
  have "length bs = nat k" using recv_pos [OF rc assms(3)] by simp
  then have "length (tcp_buffer ?ts) = BUFFER_SIZE" using assms(4) buf by (simp add: BUFFER_SIZE_def)
  moreover have "receive_loop pf api nd w = receive_loop pf api (nd\<lparr>node_tcp := ?ts\<rparr>) w1"
    using assms(4) by (subst receive_loop.simps) (simp add: MESSAGE_LENGTH_def rm Let_def)
  ultimately show thesis using that [of "nd\<lparr>node_tcp := ?ts\<rparr>"] by simp
qed

end

section \<open>What a node keeps\<close>

text \<open>
  The well-formedness of a node: its buffer has the size that the constructor allocates. Running
  a node changes neither its identifiers nor the address of the router it connects to.
\<close>

definition node_ok :: "node \<Rightarrow> bool" where
  "node_ok nd \<longleftrightarrow> length (tcp_buffer (node_tcp nd)) = BUFFER_SIZE"

definition same_node :: "node \<Rightarrow> node \<Rightarrow> bool" where
  "same_node nd nd' \<longleftrightarrow> node_id nd' = node_id nd \<and> node_dstId nd' = node_dstId nd \<and>
     initiate_messaging nd' = initiate_messaging nd \<and>
     server_ip (node_tcp nd') = server_ip (node_tcp nd) \<and>
     server_port (node_tcp nd') = server_port (node_tcp nd)"

text \<open>The node with which a turn ends, by an exception or not.\<close>

fun final_node :: "(cxx_exn \<times> node \<times> 'w) + (node \<times> 'w) \<Rightarrow> node" where
  "final_node (Inl (e, nd, w)) = nd"
| "final_node (Inr (nd, w)) = nd"

lemma same_node_trans: "same_node nd nd1 \<Longrightarrow> same_node nd1 nd2 \<Longrightarrow> same_node nd nd2"
  by (simp add: same_node_def)

lemma connect_to_server_keeps:
  "connect_to_server pf api ts w = (err, ts', w') \<Longrightarrow> tcp_buffer ts' = tcp_buffer ts \<and>
   server_ip ts' = server_ip ts \<and> server_port ts' = server_port ts"
  by (auto simp: connect_to_server_def Let_def split: prod.splits if_splits)

lemma recvMessage_keeps:
  "recvMessage api ts k w = (err, n, ts', w') \<Longrightarrow>
   server_ip ts' = server_ip ts \<and> server_port ts' = server_port ts"
  by (auto simp: recvMessage_def Let_def split: prod.splits if_splits)

context recv_api
begin

lemma recvMessage_node:
  assumes "node_ok nd" and "recvMessage api (node_tcp nd) k w = (err, n, ts, w')"
  shows "node_ok (nd\<lparr>node_tcp := ts\<rparr>)" and "same_node nd (nd\<lparr>node_tcp := ts\<rparr>)"
  using recvMessage_bounds(1) [OF _ assms(2)] recvMessage_keeps [OF assms(2)] assms(1)
  by (simp_all add: node_ok_def same_node_def)

lemma receive_loop_node:
  assumes "receive_loop pf api nd w = Some res" and "node_ok nd"
  shows "node_ok (final_node res) \<and> same_node nd (final_node res)"
proof -
  have "api' = api \<longrightarrow> node_ok nd \<longrightarrow> node_ok (final_node res) \<and> same_node nd (final_node res)"
    if "receive_loop pf api' nd w = Some res" for api'
  proof (rule receive_loop.raw_induct [OF _ that, where P = "\<lambda>pf api' nd w res.
      api' = api \<longrightarrow> node_ok nd \<longrightarrow> node_ok (final_node res) \<and> same_node nd (final_node res)"], goal_cases)
    case (1 loop pf api' nd w res)
    show ?case
    proof (intro impI)
      assume api: "api' = api" and ok: "node_ok nd"
      obtain err n ts w1 where rm: "recvMessage api (node_tcp nd) MESSAGE_LENGTH w = (err, n, ts, w1)"
        by (metis prod_cases4)
      let ?nd = "nd\<lparr>node_tcp := ts\<rparr>"
      note nd1 = recvMessage_node [OF ok rm]
      have again: "node_ok (final_node res) \<and> same_node nd (final_node res)" if "loop pf api ?nd w2 = Some res" for w2
        using 1(1) [OF that] nd1 by (auto intro: same_node_trans)
      show "node_ok (final_node res) \<and> same_node nd (final_node res)"
        using 1(2) nd1 rm api
        by (auto simp: Let_def dest: again split: if_splits sum.splits prod.splits)
    qed
  qed
  with assms show ?thesis by blast
qed

end

lemma start_turn_node:
  assumes "recv_api capi" and "start_turn pf capi nd w = Some res" and "node_ok nd"
  shows "node_ok (final_node res) \<and> same_node nd (final_node res)"
proof -
  obtain err ts w1 where c: "connect_to_server pf capi (node_tcp nd) w = (err, ts, w1)"
    by (metis prod_cases3)
  let ?nd = "nd\<lparr>node_tcp := ts\<rparr>"
  have nd1: "node_ok ?nd" "same_node nd ?nd"
    using connect_to_server_keeps [OF c] assms(3) by (simp_all add: node_ok_def same_node_def)
  have again: "node_ok (final_node res) \<and> same_node nd (final_node res)"
    if "receive_loop pf capi ?nd w2 = Some res" for w2
    using recv_api.receive_loop_node [OF assms(1) that nd1(1)] nd1(2) by (auto intro: same_node_trans)
  show ?thesis using assms(2) c nd1
    by (auto simp: start_turn_def Let_def dest: again split: if_splits prod.splits)
qed

lemma Node_start_node:
  assumes "recv_api api" and "Node_start pf api nd w = Some (e, nd', w')" and "node_ok nd"
  shows "node_ok nd' \<and> same_node nd nd'"
proof -
  have "api' = api \<longrightarrow> node_ok nd \<longrightarrow> node_ok (fst (snd r)) \<and> same_node nd (fst (snd r))"
    if "Node_start pf api' nd w = Some r" for api' r
  proof (rule Node_start.raw_induct [OF _ that, where P = "\<lambda>pf api' nd w r.
      api' = api \<longrightarrow> node_ok nd \<longrightarrow> node_ok (fst (snd r)) \<and> same_node nd (fst (snd r))"], goal_cases)
    case (1 loop pf api' nd w r)
    show ?case
    proof (intro impI)
      assume api: "api' = api" and ok: "node_ok nd"
      from 1(2) obtain res where res: "start_turn pf api' nd w = Some res"
        and r: "(case res of Inl e \<Rightarrow> Some e | Inr (nd1, w1) \<Rightarrow> loop pf api' nd1 w1) = Some r"
        by (auto simp: bind_eq_Some_conv)
      note turn = start_turn_node [OF assms(1) res [unfolded api] ok]
      show "node_ok (fst (snd r)) \<and> same_node nd (fst (snd r))"
      proof (cases res)
        case (Inl x)
        then show ?thesis using turn r by (cases x) auto
      next
        case (Inr x)
        then show ?thesis using turn r 1(1) [of pf api' "fst x" "snd x" r] api
          by (cases x) (auto intro: same_node_trans)
      qed
    qed
  qed
  with assms(2,3) show ?thesis by fastforce
qed

section \<open>Streams the node answers\<close>

text \<open>
  The specification: what a node with identifier \<open>i\<close> answers to a stream that arrives in the given
  pieces, and whether an exception ends it. It takes at most 32 bytes of a piece at a time; fewer are
  dropped; 32 are answered, unless they are a message for another node, which ends the connection,
  or have an unreadable number.
\<close>

function node_answers :: "int \<Rightarrow> string list \<Rightarrow> string list \<times> cxx_exn option" where
  "node_answers i [] = ([], None)"
| "node_answers i (p # ps) =
     (if length p < 32 then node_answers i ps
      else case processMessage i (take 32 p) 32 of
             Inl e \<Rightarrow> ([], Some e)
           | Inr reply \<Rightarrow>
               if reply = [] then ([], None)
               else (case node_answers i (if length p = 32 then ps else drop 32 p # ps) of
                       (replies, e) \<Rightarrow> (reply # replies, e)))"
  by pat_completeness auto
termination
  by (relation "measure (\<lambda>(i, ps). sum_list (map (\<lambda>p. Suc (length p)) ps))") auto

declare node_answers.simps(2) [simp del]

lemma node_answers_messages:
  assumes "\<forall>m\<in>set ms. msg_ok m \<and> m_dst m = i"
  shows "node_answers i (map encode_msg ms) = (map (\<lambda>m. encode_msg (reply_msg m)) ms, None)"
  using assms
proof (induction ms)
  case (Cons m ms)
  then have m: "msg_ok m" "m_dst m = i" by simp_all
  have "encode_msg (reply_msg m) \<noteq> []" using length_encode_msg [OF msg_ok_reply [OF m(1)]] by auto
  with Cons m processMessage_encode [OF m(1), of i "[]"] length_encode_msg [OF m(1)] show ?case
    by (simp add: node_answers.simps(2))
qed simp

text \<open>How a turn ends, by an exception or not.\<close>

definition turn_result :: "cxx_exn option \<Rightarrow> node \<Rightarrow> 'w \<Rightarrow> (cxx_exn \<times> node \<times> 'w) + (node \<times> 'w)" where
  "turn_result e nd w = (case e of None \<Rightarrow> Inr (nd, w) | Some x \<Rightarrow> Inl (x, nd, w))"

context piece_stream
begin

lemma send_message_all:
  assumes "m \<noteq> []" and "writable w (tcp_sock (node_tcp nd))"
  obtains w' where "send_message api nd m w = (NO_ERR, w')"
    and "writable w' (tcp_sock (node_tcp nd))"
    and "pieces w' (tcp_sock (node_tcp nd)) = pieces w (tcp_sock (node_tcp nd))"
    and "sent w' (tcp_sock (node_tcp nd)) = sent w (tcp_sock (node_tcp nd)) @ m"
proof -
  obtain w' where "api_send api (tcp_sock (node_tcp nd)) m w = (int (length m), w')"
    "writable w' (tcp_sock (node_tcp nd))"
    "pieces w' (tcp_sock (node_tcp nd)) = pieces w (tcp_sock (node_tcp nd))"
    "sent w' (tcp_sock (node_tcp nd)) = sent w (tcp_sock (node_tcp nd)) @ m"
    using send_all [OF assms(2), of m] by blast
  with that [of w'] assms(1) show thesis
    by (simp add: send_message_tries MAX_RETRY_def eval_nat_numeral)
qed

text \<open>The empty string cannot be sent successfully, but trying sends no byte.\<close>

lemma tries_nothing:
  "writable w s \<Longrightarrow> \<exists>w'. tries k api s [] w = (1, w') \<and> sent w' s = sent w s"
proof (induction k arbitrary: w)
  case (Suc k)
  from send_all [OF Suc.prems, of "[]"] obtain w1 where
    "api_send api s [] w = (0, w1)" "writable w1 s" "sent w1 s = sent w s" by auto
  with Suc.IH [of w1] show ?case by auto
qed simp

lemma closeConnection_sent: "sent (closeConnection pf api nd w) t = sent w t"
  by (cases pf) (simp_all add: closeConnection_def closeSocket_def close_sent cleanup_sent)

text \<open>What the node sends before it receives: its identification and perhaps its first message.\<close>

lemma opening_sent:
  assumes "id_ok (node_id nd)" and "id_ok (node_dstId nd)"
    and s: "tcp_sock (node_tcp nd) = s" and wr: "writable w s"
  obtains w1 w2 where "subscribe_to_router api nd w = (NO_ERR, w1)"
    and "send_initiator_message api nd w1 = (NO_ERR, w2)" and "writable w2 s" and "pieces w2 s = pieces w s"
    and "sent w2 s = sent w s @ buildIdMessage (node_id nd) @
      (if initiate_messaging nd then buildFirstMessage (node_id nd) (node_dstId nd) else [])"
proof -
  have "length (buildIdMessage (node_id nd)) = 3" using assms(1) by (simp add: buildIdMessage_def id_field.enc_width)
  then have id: "buildIdMessage (node_id nd) \<noteq> []" by auto
  have "length (buildFirstMessage (node_id nd) (node_dstId nd)) = 32"
    using assms(1,2) by (simp add: buildFirstMessage_encode length_encode_msg msg_ok_first)
  then have first: "buildFirstMessage (node_id nd) (node_dstId nd) \<noteq> []" by auto
  obtain w1 where w1: "subscribe_to_router api nd w = (NO_ERR, w1)" "writable w1 (tcp_sock (node_tcp nd))"
    "pieces w1 s = pieces w s" "sent w1 s = sent w s @ buildIdMessage (node_id nd)"
    by (rule send_message_all [OF id wr [folded s]]) (auto simp: subscribe_to_router_def s)
  show thesis
  proof (cases "initiate_messaging nd")
    case True
    show thesis
      by (rule send_message_all [OF first w1(2)], rule that [OF w1(1)])
        (use True w1 s in \<open>auto simp: send_initiator_message_def\<close>)
  next
    case False
    with that [OF w1(1), of w1] w1 s show thesis by (simp add: send_initiator_message_def NO_ERR_def)
  qed
qed

text \<open>One step: the loop takes at most 32 bytes of the first piece and ends or goes on.\<close>

definition goes_on :: "platform \<Rightarrow> sock \<Rightarrow> node \<Rightarrow> 'w \<Rightarrow> string list \<Rightarrow> string \<Rightarrow> bool" where
  "goes_on pf s nd w ps out \<longleftrightarrow> (\<exists>nd1 w1. receive_loop pf api nd w = receive_loop pf api nd1 w1 \<and>
     length (tcp_buffer (node_tcp nd1)) = BUFFER_SIZE \<and> node_id nd1 = node_id nd \<and> tcp_sock (node_tcp nd1) = s \<and>
     writable w1 s \<and> pieces w1 s = ps \<and> sent w1 s = sent w s @ out)"

definition ends :: "platform \<Rightarrow> sock \<Rightarrow> node \<Rightarrow> 'w \<Rightarrow> cxx_exn option \<Rightarrow> string \<Rightarrow> bool" where
  "ends pf s nd w e out \<longleftrightarrow>
     (\<exists>nd1 w1. receive_loop pf api nd w = Some (turn_result e nd1 w1) \<and> sent w1 s = sent w s @ out)"

lemma ends_goes_on:
  assumes "goes_on pf s nd w ps out1"
    and "\<And>nd1 w1. length (tcp_buffer (node_tcp nd1)) = BUFFER_SIZE \<Longrightarrow> node_id nd1 = node_id nd \<Longrightarrow>
      tcp_sock (node_tcp nd1) = s \<Longrightarrow> writable w1 s \<Longrightarrow> pieces w1 s = ps \<Longrightarrow> ends pf s nd1 w1 e out2"
  shows "ends pf s nd w e (out1 @ out2)"
  using assms unfolding goes_on_def ends_def by force

lemma short_piece_dropped:
  assumes buf: "length (tcp_buffer (node_tcp nd)) = BUFFER_SIZE" and s: "tcp_sock (node_tcp nd) = s"
    and ps: "pieces w s = p # ps" and "p \<noteq> []" and "length p < 32" and wr: "writable w s"
  shows "goes_on pf s nd w ps []"
proof -
  from recv_piece [OF ps assms(4), of 32] obtain w1 where
    rc: "api_recv api (tcp_sock (node_tcp nd)) 32 w = (int (length p), take 32 p, w1)"
    and w1: "pieces w1 s = ps" "sent w1 s = sent w s" "writable w1 s" using assms(5) wr s by auto
  show ?thesis
    by (rule receive_loop_short [OF buf rc, of pf]) (use assms(4,5) w1 s in \<open>auto simp: goes_on_def\<close>)
qed

lemma frame_step:
  assumes buf: "length (tcp_buffer (node_tcp nd)) = BUFFER_SIZE" and s: "tcp_sock (node_tcp nd) = s"
    and ps: "pieces w s = p # ps" and "32 \<le> length p" and wr: "writable w s"
  shows "case processMessage (node_id nd) (take 32 p) 32 of
      Inl e \<Rightarrow> ends pf s nd w (Some e) []
    | Inr reply \<Rightarrow> if reply = [] then ends pf s nd w None []
        else goes_on pf s nd w (if length p = 32 then ps else drop 32 p # ps) reply"
proof -
  have "p \<noteq> []" using assms(4) by auto
  from recv_piece [OF ps this, of 32] obtain w1 where
    rc: "api_recv api (tcp_sock (node_tcp nd)) 32 w = (32, take 32 p, w1)"
    and w1: "pieces w1 s = (if length p = 32 then ps else drop 32 p # ps)" "sent w1 s = sent w s" "writable w1 s"
    using assms(4) wr s by auto
  obtain nd1 where nd1: "receive_loop pf api nd w =
      (case processMessage (node_id nd) (take 32 p) 32 of
         Inl e \<Rightarrow> Some (Inl (e, nd1, w1))
       | Inr reply \<Rightarrow> (case send_message api nd1 reply w1 of
           (err, w2) \<Rightarrow> if err = NO_ERR then receive_loop pf api nd1 w2 else Some (Inr (nd1, w2))))"
    "length (tcp_buffer (node_tcp nd1)) = BUFFER_SIZE" "node_id nd1 = node_id nd"
    "tcp_sock (node_tcp nd1) = s" by (rule receive_loop_frame [OF buf rc]) (auto simp: s)
  show ?thesis
  proof (cases "processMessage (node_id nd) (take 32 p) 32")
    case (Inl e)
    with nd1(1) w1(2) show ?thesis by (auto simp: ends_def turn_result_def)
  next
    case (Inr reply)
    show ?thesis
    proof (cases "reply = []")
      case True
      from tries_nothing [OF w1(3), of MAX_RETRY] obtain w2 where
        "send_message api nd1 [] w1 = (1, w2)" "sent w2 s = sent w1 s" by (auto simp: send_message_tries nd1(4))
      with True Inr nd1(1) w1(2) show ?thesis by (auto simp: ends_def turn_result_def NO_ERR_def)
    next
      case False
      have "writable w1 (tcp_sock (node_tcp nd1))" using w1(3) by (simp add: nd1(4))
      then obtain w2 where "send_message api nd1 reply w1 = (NO_ERR, w2)" "writable w2 s"
        "pieces w2 s = pieces w1 s" "sent w2 s = sent w1 s @ reply"
        by (rule send_message_all [OF False]) (auto simp: nd1(4))
      with Inr nd1 w1(1,2) have "goes_on pf s nd w (if length p = 32 then ps else drop 32 p # ps) reply"
        unfolding goes_on_def by (intro exI [of _ nd1] exI [of _ w2]) simp
      with Inr False show ?thesis by simp
    qed
  qed
qed

text \<open>The inner loop does what the specification says, whatever the pieces are.\<close>

lemma receive_loop_answers:
  assumes "length (tcp_buffer (node_tcp nd)) = BUFFER_SIZE" and "tcp_sock (node_tcp nd) = s"
    and "[] \<notin> set (pieces w s)" and "writable w s" and "node_answers (node_id nd) (pieces w s) = (replies, e)"
  shows "ends pf s nd w e (concat replies)"
  using assms
proof (induction "node_id nd" "pieces w s" arbitrary: nd w replies rule: node_answers.induct)
  case 1
  obtain r bs w1 where rc: "api_recv api s 32 w = (r, bs, w1)" by (metis prod_cases3)
  have "r \<le> 0" "sent w1 s = sent w s" using recv_end [OF 1(1) [symmetric] rc] by auto
  with 1 rc show ?case unfolding ends_def
    by (subst receive_loop.simps)
      (auto simp: recvMessage_def MESSAGE_LENGTH_def BUFFER_SIZE_def NO_ERR_def Let_def turn_result_def
        closeConnection_sent)
next
  case (2 p ps)
  note ps = 2(3) [symmetric] and ans = 2(8) [unfolded 2(3) [symmetric] node_answers.simps(2)]
  have ne: "p \<noteq> []" "[] \<notin> set ps" using 2(6) ps by auto
  show ?case
  proof (cases "length p < 32")
    case True
    from ends_goes_on [OF short_piece_dropped [OF 2(4,5) ps ne(1) True 2(7)]] 2(1) [OF True] ans True ne(2)
    show ?thesis by force
  next
    case False
    let ?rest = "if length p = 32 then ps else drop 32 p # ps"
    note step = frame_step [OF 2(4,5) ps _ 2(7), of pf]
    show ?thesis
    proof (cases "\<exists>a. processMessage (node_id nd) (take 32 p) 32 = Inr a \<and> a \<noteq> []")
      case True
      then obtain a where a: "processMessage (node_id nd) (take 32 p) 32 = Inr a" "a \<noteq> []" by blast
      obtain as where as: "node_answers (node_id nd) ?rest = (as, e)" "replies = a # as"
        using ans False a by (auto split: prod.splits)
      have "[] \<notin> set ?rest" using ne False by auto
      with ends_goes_on [of pf s nd w ?rest a e "concat as"] step False a 2(2) [OF False a] as
      show ?thesis by auto
    next
      case other: False
      with step ans False show ?thesis by (auto split: sum.splits)
    qed
  qed
qed

end

end
