(* ===== verification/Node_Properties.thy ===== *)
theory Node_Properties
  imports Node_Loop Script_Net
begin

text \<open>
  The properties of the node: sending with retries, receiving into the buffer, one connection
  from the identification message to the last reply, and the ways out of the loops.
\<close>

section \<open>A sample node\<close>

definition client_net :: "string list \<Rightarrow> net" where
  "client_net chunks = \<lparr>inbound = (\<lambda>s. if s = 1 then chunks else []), net_status = (\<lambda>_. Closed),
     outbound = (\<lambda>_. []), open_socks = [], listening = 0, backlog = [], connects = [0],
     last_error = Other_error 0\<rparr>"

definition sample_node :: node where
  "sample_node = Node 5 3 True (TCPSocket ''127.0.0.1'' 9000 (0, 0) 1 (replicate BUFFER_SIZE NUL))"

abbreviation "sample_client \<equiv> net_client Win32"

lemma sample_node_fields:
  "length (tcp_buffer (node_tcp sample_node)) = BUFFER_SIZE" "node_id sample_node = 5"
  "node_dstId sample_node = 3" "initiate_messaging sample_node"
  "tcp_sock (node_tcp sample_node) = 1"
  by (simp_all add: sample_node_def Node_def TCPSocket_def)

section \<open>Sending and receiving\<close>

text \<open>Sending a message tries at most three times and stops at the first attempt that sends
  something; it reports success exactly when one of the attempts did.\<close>

lemma send_message_retries:
  "send_message api nd msg w = tries 3 api (tcp_sock (node_tcp nd)) msg w"
  using send_message_tries [of api nd msg w] by (simp add: MAX_RETRY_def)



section \<open>Well-formed nodes\<close>

text \<open>The states in which a node begins a turn of its outer loop.\<close>

inductive node_turns ::
    "platform \<Rightarrow> ('w, 'x) client_api_scheme \<Rightarrow> node \<Rightarrow> 'w \<Rightarrow> node \<Rightarrow> 'w \<Rightarrow> bool"
  for pf api nd w where
  begins: "node_turns pf api nd w nd w"
| turns: "node_turns pf api nd w nd1 w1 \<Longrightarrow> start_turn pf api nd1 w1 = Some (Inr (nd2, w2)) \<Longrightarrow>
    node_turns pf api nd w nd2 w2"

text \<open>C23: A node that its constructor has made is well-formed, with a buffer of 3200 bytes, and stays
  so: at the beginning of every turn of its outer loop, and when an exception ends it, the buffer
  has this size and the identifiers and the address of the router are those it was made with.\<close>

theorem node_stays_well_formed:
  assumes "recv_api api" and "BUFFER_SIZE \<le> length uninit_buffer"
    and "nd = Node i d initiate (TCPSocket ip p uninit_addr uninit_sock uninit_buffer)"
  shows "(node_turns pf api nd w nd1 w1 \<longrightarrow> node_ok nd1 \<and> same_node nd nd1) \<and>
    (Node_start pf api nd w = Some (e, nd2, w2) \<longrightarrow> node_ok nd2 \<and> same_node nd nd2)"
proof -
  have ok: "node_ok nd" using assms(2) by (simp add: assms(3) node_ok_def Node_def TCPSocket_def)
  have "node_ok nd1 \<and> same_node nd nd1" if "node_turns pf api nd w nd1 w1" using that
  proof induction
    case begins
    with ok show ?case by (simp add: same_node_def)
  next
    case (turns nd1 w1 nd2 w2)
    with start_turn_node [OF assms(1) turns.hyps(2)] show ?case by (auto intro: same_node_trans)
  qed
  with Node_start_node [OF assms(1) _ ok] show ?thesis by blast
qed

theorem node_stays_well_formed_witness:
  "\<exists>nd' w'. start_turn Win32 sample_client sample_node ((client_net [])\<lparr>connects := [-1]\<rparr>) =
       Some (Inr (nd', w')) \<and> node_ok nd' \<and> node_id nd' = 5 \<and> server_port (node_tcp nd') = 9000"
proof -
  let ?w = "(client_net [])\<lparr>connects := [-1]\<rparr>"
  obtain nd' w' where st: "start_turn Win32 sample_client sample_node ?w = Some (Inr (nd', w'))"
    by (simp add: start_turn_def connect_to_server_def net_client_def net_socket_def net_fresh_def
        net_connect_def client_net_def NO_ERR_def Let_def)
  have "node_turns Win32 sample_client sample_node ?w nd' w'" by (rule turns [OF begins st])
  then have "node_ok nd' \<and> same_node sample_node nd'"
    using node_stays_well_formed [OF net_c.recv_api_axioms [of Win32] _ sample_node_def, of Win32 ?w nd' w']
    by simp
  with st show ?thesis
    by (auto simp: same_node_def sample_node_fields) (simp add: sample_node_def Node_def TCPSocket_def)
qed

section \<open>One connection\<close>

text \<open>C22: On a connection that the node has opened and that takes what it sends, in whatever non-empty
  pieces the bytes from the router arrive until it ends, the turn of the outer loop ends and the node
  has sent, in this order, its identification message, its first message if it is to start the
  conversation, and the answers that \<open>node_answers\<close> gives for these pieces: one to each 32 bytes that
  it receives at once, while pieces of less than 32 bytes are dropped, up to a message for another
  node, which ends the connection, or one with an unreadable number, which ends the turn with the
  exception. In particular, if the pieces are whole messages addressed to the node, it sends the reply
  to each of them.\<close>

theorem node_connection:
  assumes "piece_stream api pieces sent writable"
    and "length (tcp_buffer (node_tcp nd)) = BUFFER_SIZE"
    and "id_ok (node_id nd)" and "id_ok (node_dstId nd)"
    and "connect_to_server pf api (node_tcp nd) w = (NO_ERR, ts, w1)"
    and "writable w1 (tcp_sock ts)" and "[] \<notin> set (pieces w1 (tcp_sock ts))"
  shows "(\<exists>nd' w'. start_turn pf api nd w =
        Some (case snd (node_answers (node_id nd) (pieces w1 (tcp_sock ts))) of
                None \<Rightarrow> Inr (nd', w') | Some e \<Rightarrow> Inl (e, nd', w')) \<and>
      sent w' (tcp_sock ts) = sent w1 (tcp_sock ts) @ buildIdMessage (node_id nd) @
        (if initiate_messaging nd then buildFirstMessage (node_id nd) (node_dstId nd) else []) @
        concat (fst (node_answers (node_id nd) (pieces w1 (tcp_sock ts))))) \<and>
    (\<forall>ms. (\<forall>m\<in>set ms. msg_ok m \<and> m_dst m = node_id nd) \<longrightarrow>
      node_answers (node_id nd) (map encode_msg ms) = (map (\<lambda>m. encode_msg (reply_msg m)) ms, None))"
proof -
  let ?nd = "nd\<lparr>node_tcp := ts\<rparr>"
  obtain replies e where ans: "node_answers (node_id nd) (pieces w1 (tcp_sock ts)) = (replies, e)" by fastforce
  obtain w2 w3 where w3: "subscribe_to_router api ?nd w1 = (NO_ERR, w2)" "send_initiator_message api ?nd w2 = (NO_ERR, w3)"
    "writable w3 (tcp_sock ts)" "pieces w3 (tcp_sock ts) = pieces w1 (tcp_sock ts)"
    "sent w3 (tcp_sock ts) = sent w1 (tcp_sock ts) @ buildIdMessage (node_id nd) @
      (if initiate_messaging nd then buildFirstMessage (node_id nd) (node_dstId nd) else [])"
    by (rule piece_stream.opening_sent [OF assms(1), of ?nd "tcp_sock ts" w1]) (use assms(3,4,6) in simp_all)
  have "length (tcp_buffer (node_tcp ?nd)) = BUFFER_SIZE"
    using connect_to_server_keeps [OF assms(5)] assms(2) by simp
  from piece_stream.receive_loop_answers [OF assms(1) this, of "tcp_sock ts" w3 replies e pf] w3(3,4) assms(7) ans
  obtain nd' w' where "receive_loop pf api ?nd w3 = Some (turn_result e nd' w')"
    "sent w' (tcp_sock ts) = sent w3 (tcp_sock ts) @ concat replies"
    by (auto simp: piece_stream.ends_def [OF assms(1)])
  then show ?thesis
    using assms(5) w3(1,2,5) ans node_answers_messages
    by (intro conjI exI [of _ nd'] exI [of _ w']) (auto simp: start_turn_def Let_def turn_result_def)
qed

lemma sample_connect:
  "connect_to_server Win32 sample_client (node_tcp sample_node) (client_net chunks) =
     (NO_ERR, (node_tcp sample_node)\<lparr>tcp_sock := 1, server_addr := (0, 9000)\<rparr>,
      (client_net chunks)\<lparr>open_socks := [1], connects := []\<rparr>)"
  by (simp add: connect_to_server_def net_client_def net_socket_def net_fresh_def net_connect_def
      client_net_def NO_ERR_def Let_def sample_node_def Node_def TCPSocket_def htons_def)

theorem node_connection_witness:
  "\<exists>nd' w'. start_turn Win32 sample_client sample_node
       (client_net [''00322001234'', ''0032200123456111111111111111100500322001234561111111111111111005'', ''003'']) =
         Some (Inr (nd', w')) \<and>
     net_sent w' 1 = ''005'' @ ''00522001234561111111111111111003'' @
       ''00522101234561111111111111111003'' @ ''00522101234561111111111111111003''"
proof -
  let ?ps = "[''00322001234'', ''0032200123456111111111111111100500322001234561111111111111111005'', ''003'']"
  let ?w = "(client_net ?ps)\<lparr>open_socks := [1], connects := []\<rparr>"
  have e: "buildIdMessage 5 = ''005''" "buildFirstMessage 5 3 = ''00522001234561111111111111111003''" by code_simp+
  have p: "net_pieces ?w 1 = ?ps" "net_sent ?w 1 = []" by (simp_all add: net_pieces_def net_sent_def client_net_def)
  have pm: "processMessage 5 ''00322001234561111111111111111005'' 32 = Inr ''00522101234561111111111111111003''"
    by code_simp
  have ans: "node_answers 5 ?ps =
      ([''00522101234561111111111111111003'', ''00522101234561111111111111111003''], None)"
    by (simp add: node_answers.simps(2) pm)
  from node_connection [OF net_p.piece_stream_axioms sample_node_fields(1) _ _ sample_connect,
      of ?ps, THEN conjunct1] show ?thesis
    by (auto simp: sample_node_fields id_ok_def p ans e) (simp add: client_net_def)
qed

section \<open>Ways out of the loops\<close>

text \<open>C37: A message for another node ends the inner loop of the node: the empty reply cannot be
  sent, so after three attempts the loop is left, without closing the socket: since the message
  was received nothing but the three attempts to send has happened.\<close>

theorem foreign_message_leaves_loop:
  assumes "recv_api api" and "send_api api"
    and "length (tcp_buffer (node_tcp nd)) = BUFFER_SIZE" and "msg_ok m" and "m_dst m \<noteq> node_id nd"
    and "api_recv api (tcp_sock (node_tcp nd)) 32 w = (32, encode_msg m, w1)"
  shows "\<exists>nd'. receive_loop pf api nd w =
    Some (Inr (nd', snd (tries 3 api (tcp_sock (node_tcp nd)) [] w1)))"
proof -
  obtain nd1 where l: "receive_loop pf api nd w =
      (case send_message api nd1 [] w1 of
         (err, w2) \<Rightarrow> if err = NO_ERR then receive_loop pf api nd1 w2 else Some (Inr (nd1, w2)))"
    "tcp_sock (node_tcp nd1) = tcp_sock (node_tcp nd)"
    using recv_api.receive_loop_message [OF assms(1,3,4,6), of pf] assms(5) by auto
  have "fst (send_message api nd1 [] w1) = 1" by (rule send_api.send_message_empty [OF assms(2)])
  with l show ?thesis
    by (auto simp: case_prod_beta NO_ERR_def send_message_tries MAX_RETRY_def)
qed

theorem foreign_message_leaves_loop_witness:
  "\<exists>nd' w'. receive_loop Win32 sample_client sample_node
      ((client_net [''00322001234561111111111111111004''])\<lparr>open_socks := [1]\<rparr>) = Some (Inr (nd', w')) \<and>
     1 \<in> set (open_socks w')"
proof -
  let ?w = "(client_net [''00322001234561111111111111111004''])\<lparr>open_socks := [1]\<rparr>"
  have e: "encode_msg (first_msg 3 4) = ''00322001234561111111111111111004''" by code_simp
  have ok: "msg_ok (first_msg 3 4)" "m_dst (first_msg 3 4) \<noteq> node_id sample_node"
    by (simp_all add: msg_ok_first id_ok_def sample_node_fields)
  have rc: "api_recv sample_client (tcp_sock (node_tcp sample_node)) 32 ?w =
      (32, encode_msg (first_msg 3 4), ?w\<lparr>inbound := (inbound ?w)(1 := [[]])\<rparr>)"
    by (simp add: e sample_node_fields net_client_def net_recv_def client_net_def Let_def)
  have "1 \<in> set (open_socks (snd (tries 3 sample_client (tcp_sock (node_tcp sample_node)) []
      (?w\<lparr>inbound := (inbound ?w)(1 := [[]])\<rparr>))))"
    by (simp add: eval_nat_numeral net_client_def net_send_def client_net_def)
  with foreign_message_leaves_loop [OF net_c.recv_api_axioms [of Win32] net_cs.send_api_axioms
      sample_node_fields(1) ok rc, of Win32] show ?thesis by blast
qed

lemma Node_start_malformed:
  assumes "recv_api api" and "length (tcp_buffer ts) = BUFFER_SIZE"
    and "connect_to_server pf api (node_tcp nd) w = (NO_ERR, ts, w1)"
    and "subscribe_to_router api (nd\<lparr>node_tcp := ts\<rparr>) w1 = (NO_ERR, w2)"
    and "send_initiator_message api (nd\<lparr>node_tcp := ts\<rparr>) w2 = (NO_ERR, w3)"
    and "api_recv api (tcp_sock ts) 32 w3 = (32, bs, w4)"
    and "stoi (substr bs 29 3) = Inl Invalid_argument"
  shows "\<exists>nd'. Node_start pf api nd w = Some (Invalid_argument, nd', w4)"
proof -
  let ?nd = "nd\<lparr>node_tcp := ts\<rparr>"
  have "length bs = 32" using recv_api.recv_pos [OF assms(1,6)] by simp
  then have rm: "recvMessage api ts 32 w3 =
      (NO_ERR, 32, ts\<lparr>tcp_buffer := bs @ NUL # drop 33 (tcp_buffer ts)\<rparr>, w4)"
    using recv_api.recvMessage_data [OF assms(1,2) _ assms(6)] by (simp add: BUFFER_SIZE_def)
  have "substr (bs @ NUL # drop 33 (tcp_buffer ts)) 29 3 = substr bs 29 3"
    using \<open>length bs = 32\<close> by (simp add: substr_def)
  then have "receive_loop pf api ?nd w3 = Some (Inl (Invalid_argument,
      ?nd\<lparr>node_tcp := ts\<lparr>tcp_buffer := bs @ NUL # drop 33 (tcp_buffer ts)\<rparr>\<rparr>, w4))"
    using assms(7) by (subst receive_loop.simps)
      (simp add: MESSAGE_LENGTH_def rm Let_def getBuffer_def processMessage_def MSG_LEN_def)
  then show ?thesis
    using assms(3-5) by (subst Node_start.simps) (simp add: start_turn_def Let_def)
qed

lemma net_send_message:
  assumes "net_status w (tcp_sock (node_tcp nd)) \<noteq> Broken" and "m \<noteq> []"
  shows "send_message (net_client pf) nd m w = (NO_ERR, snd (net_send (tcp_sock (node_tcp nd)) m w))"
  using assms by (simp add: send_message_tries MAX_RETRY_def eval_nat_numeral net_client_def net_send_def)

text \<open>The sample node on a connection that delivers a message without a destination.\<close>

definition malformed :: string where
  "malformed = ''00322001234561111111111111111xxx''"

definition mal_net :: net where
  "mal_net = (client_net [malformed])\<lparr>open_socks := [1], connects := []\<rparr>"

definition mal_sent :: net where
  "mal_sent = mal_net\<lparr>outbound := (outbound mal_net)(1 :=
     [''005'', ''00522001234561111111111111111003''])\<rparr>"

definition mal_tcp :: tcp_socket where
  "mal_tcp = (node_tcp sample_node)\<lparr>tcp_sock := 1, server_addr := (0, 9000)\<rparr>"

lemma malformed_facts:
  "length (tcp_buffer mal_tcp) = BUFFER_SIZE"
  "connect_to_server Win32 sample_client (node_tcp sample_node) (client_net [malformed]) =
     (NO_ERR, mal_tcp, mal_net)"
  "subscribe_to_router sample_client (sample_node\<lparr>node_tcp := mal_tcp\<rparr>) mal_net =
     (NO_ERR, snd (net_send 1 ''005'' mal_net))"
  "send_initiator_message sample_client (sample_node\<lparr>node_tcp := mal_tcp\<rparr>)
     (snd (net_send 1 ''005'' mal_net)) = (NO_ERR, mal_sent)"
  "api_recv sample_client (tcp_sock mal_tcp) 32 mal_sent =
     (32, malformed, mal_sent\<lparr>inbound := (inbound mal_sent)(1 := [[]])\<rparr>)"
  "stoi (substr malformed 29 3) = Inl Invalid_argument"
proof -
  have e: "buildIdMessage 5 = ''005''" "buildFirstMessage 5 3 = ''00522001234561111111111111111003''"
    by code_simp+
  show "length (tcp_buffer mal_tcp) = BUFFER_SIZE" by (simp add: mal_tcp_def sample_node_fields)
  show "connect_to_server Win32 sample_client (node_tcp sample_node) (client_net [malformed]) =
     (NO_ERR, mal_tcp, mal_net)" by (simp add: sample_connect mal_tcp_def mal_net_def)
  show "subscribe_to_router sample_client (sample_node\<lparr>node_tcp := mal_tcp\<rparr>) mal_net =
      (NO_ERR, snd (net_send 1 ''005'' mal_net))"
    by (simp add: subscribe_to_router_def e sample_node_fields net_send_message mal_tcp_def mal_net_def
        client_net_def)
  show "send_initiator_message sample_client (sample_node\<lparr>node_tcp := mal_tcp\<rparr>)
      (snd (net_send 1 ''005'' mal_net)) = (NO_ERR, mal_sent)"
    by (simp add: send_initiator_message_def e sample_node_fields net_send_message mal_tcp_def
        mal_net_def mal_sent_def client_net_def net_send_def)
  show "api_recv sample_client (tcp_sock mal_tcp) 32 mal_sent =
      (32, malformed, mal_sent\<lparr>inbound := (inbound mal_sent)(1 := [[]])\<rparr>)"
    by (simp add: mal_tcp_def net_client_def net_recv_def mal_sent_def mal_net_def client_net_def
        malformed_def Let_def)
  show "stoi (substr malformed 29 3) = Inl Invalid_argument" by code_simp
qed

text \<open>C38: A 32-byte message whose destination is no number ends the node: the exception of
  \<^verbatim>\<open>std::stoi\<close> leaves both loops and \<^verbatim>\<open>start\<close>, with the connection still open.\<close>

theorem malformed_message_ends_node:
  assumes "recv_api api" and "length (tcp_buffer ts) = BUFFER_SIZE"
    and "connect_to_server pf api (node_tcp nd) w = (NO_ERR, ts, w1)"
    and "subscribe_to_router api (nd\<lparr>node_tcp := ts\<rparr>) w1 = (NO_ERR, w2)"
    and "send_initiator_message api (nd\<lparr>node_tcp := ts\<rparr>) w2 = (NO_ERR, w3)"
    and "api_recv api (tcp_sock ts) 32 w3 = (32, bs, w4)"
    and "stoi (substr bs 29 3) = Inl Invalid_argument"
  shows "\<exists>nd'. Node_start pf api nd w = Some (Invalid_argument, nd', w4)"
  using assms by (rule Node_start_malformed)

theorem malformed_message_ends_node_witness:
  "\<exists>nd' w4. Node_start Win32 sample_client sample_node (client_net [malformed]) =
       Some (Invalid_argument, nd', w4) \<and>
     outbound w4 1 = [''005'', ''00522001234561111111111111111003'']"
  using malformed_message_ends_node [OF net_c.recv_api_axioms [of Win32] malformed_facts]
  by (auto simp: mal_sent_def)

lemma receive_loop_Inl:
  assumes "receive_loop pf api nd w = Some res"
  shows "\<forall>e x. res = Inl (e, x) \<longrightarrow> e = Invalid_argument"
proof (rule receive_loop.raw_induct [OF _ assms, where
      P = "\<lambda>pf api nd w res. \<forall>e x. res = Inl (e, x) \<longrightarrow> e = Invalid_argument"], goal_cases)
  case (1 loop pf api nd w res)
  then show ?case
    using processMessage_Inl by (fastforce simp: Let_def split: prod.splits if_splits sum.splits)
qed

lemma start_turn_Inl: "start_turn pf api nd w = Some (Inl (e, x)) \<Longrightarrow> e = Invalid_argument"
  by (auto simp: start_turn_def Let_def dest: receive_loop_Inl split: prod.splits if_splits)

text \<open>The node's loops have no other way out than the exception of an unparsable number: when
  \<^verbatim>\<open>start\<close> ends at all, it ends with \<^verbatim>\<open>std::invalid_argument\<close>, whatever the network does.\<close>

lemma node_ends_only_by_invalid_argument:
  assumes "Node_start pf api nd w = Some (e, nd', w')"
  shows "e = Invalid_argument"
proof -
  have "fst (e, nd', w') = Invalid_argument"
  proof (rule Node_start.raw_induct [OF _ assms, where
        P = "\<lambda>pf api nd w res. fst res = Invalid_argument"], goal_cases)
    case (1 loop pf api nd w res)
    then show ?case
      by (cases "start_turn pf api nd w"; cases res) (auto split: sum.splits dest: start_turn_Inl)
  qed
  then show ?thesis by simp
qed

end
