(* ===== verification/Router_Threads.thy ===== *)
theory Router_Threads
  imports Router_Handlers
begin

text \<open>
  The router's threads: the event loop, the read workers and the write workers, interleaved in
  any order. A step is one critical section (an operation of \<^verbatim>\<open>Sessions\<close> under
  \<^verbatim>\<open>sessions_mutex_\<close> or of a queue under its mutex), taking or giving back a session's mutex,
  or one call of \<^verbatim>\<open>TcpServer\<close>; between two steps of a thread the others may run. A session's
  mutex is identified by the session's address, which the invariant of the tables allows. The
  copy of the vector of accepted sockets, which the event loop makes without a lock, is one step.
\<close>

section \<open>Program counters\<close>

datatype pc =
    R_pop
  | R_find sock
  | R_lock sock ref
  | R_recheck sock ref
  | R_turn sock ref ref
  | R_shake sock ref ref
  | R_add sock ref ref int
  | R_msg sock ref ref
  | R_route sock ref ref string int
  | R_push sock ref ref string ref
  | R_remove sock ref
  | W_pop
  | W_find sock string
  | W_lock sock string ref
  | W_send sock string ref
  | W_remove sock ref
  | R_unlock ref
  | W_unlock ref
  | Thrown cxx_exn

datatype main_pc =
    M_top
  | M_ready "sock list" bool
  | M_register sock "sock list"
  | M_push "sock list"

record 'w threads =
  rt :: "'w router"
  owner :: "ref \<rightharpoonup> nat"
  pcs :: "nat \<Rightarrow> pc"
  bufs :: "nat \<Rightarrow> buffer"
  mpc :: main_pc

section \<open>Steps of a worker\<close>

definition goto :: "nat \<Rightarrow> pc \<Rightarrow> 'w threads \<Rightarrow> 'w threads" where
  "goto i p S = S\<lparr>pcs := (pcs S)(i := p)\<rparr>"

definition set_sess :: "sessions \<Rightarrow> 'w threads \<Rightarrow> 'w threads" where
  "set_sess st S = S\<lparr>rt := (rt S)\<lparr>sess := st\<rparr>\<rparr>"

definition set_world :: "'w \<Rightarrow> 'w threads \<Rightarrow> 'w threads" where
  "set_world w S = S\<lparr>rt := (rt S)\<lparr>world := w\<rparr>\<rparr>"

text \<open>After a turn of the read loop: the next turn, the removal of the session, or the end.\<close>

definition after_turn :: "int \<Rightarrow> sock \<Rightarrow> ref \<Rightarrow> ref \<Rightarrow> pc" where
  "after_turn bytes_read s l r =
     (if bytes_read > 0 then R_turn s l r
      else if bytes_read = SOCKET_ERROR then R_remove s l else R_unlock l)"

text \<open>The read of \<^verbatim>\<open>handle_handshake\<close> or \<^verbatim>\<open>process_message\<close> up to the extracted identifier.\<close>

definition shake_step ::
    "platform \<Rightarrow> ('w, 'x) sock_api_scheme \<Rightarrow> nat \<Rightarrow> sock \<Rightarrow> ref \<Rightarrow> ref \<Rightarrow> 'w threads \<Rightarrow> 'w threads option" where
  "shake_step pf api i s l r S =
     (case read_async pf api s (bufs S i) ID_MESSAGE_SIZE (world (rt S)) of
        None \<Rightarrow> None
      | Some (bytes_read, buf, w) \<Rightarrow>
          if bytes_read = int ID_MESSAGE_SIZE then
            let buf1 = buf[ID_MESSAGE_SIZE := NUL];
                S1 = (set_world w S)\<lparr>bufs := (bufs S)(i := buf1)\<rparr>
            in (case extract_src_id buf1 bytes_read of
                  Inl e \<Rightarrow> Some (goto i (Thrown e) S1)
                | Inr v \<Rightarrow> Some (goto i (R_add s l r v) S1))
          else Some (goto i (after_turn bytes_read s l r)
                 ((set_world w S)\<lparr>bufs := (bufs S)(i := buf)\<rparr>)))"

definition msg_step ::
    "platform \<Rightarrow> ('w, 'x) sock_api_scheme \<Rightarrow> nat \<Rightarrow> sock \<Rightarrow> ref \<Rightarrow> ref \<Rightarrow> 'w threads \<Rightarrow> 'w threads option" where
  "msg_step pf api i s l r S =
     (case read_async pf api s (bufs S i) DATA_MESSAGE_SIZE (world (rt S)) of
        None \<Rightarrow> None
      | Some (bytes_read, buf, w) \<Rightarrow>
          if bytes_read = int DATA_MESSAGE_SIZE then
            let buf1 = buf[DATA_MESSAGE_SIZE := NUL];
                S1 = (set_world w S)\<lparr>bufs := (bufs S)(i := buf1)\<rparr>
            in (case extract_dst_id buf1 bytes_read of
                  Inl e \<Rightarrow> Some (goto i (Thrown e) S1)
                | Inr v \<Rightarrow> Some (goto i (R_route s l r (take DATA_MESSAGE_SIZE buf1) v) S1))
          else Some (goto i (after_turn bytes_read s l r)
                 ((set_world w S)\<lparr>bufs := (bufs S)(i := buf)\<rparr>)))"

text \<open>One step of worker \<open>i\<close>; \<open>None\<close> when it has to wait for an element or a mutex.\<close>

fun work ::
    "platform \<Rightarrow> ('w, 'x) sock_api_scheme \<Rightarrow> nat \<Rightarrow> pc \<Rightarrow> 'w threads \<Rightarrow> 'w threads option" where
  "work pf api i R_pop S =
     (case try_pop (read_queue (rt S)) of
        None \<Rightarrow> None
      | Some (s, q) \<Rightarrow> Some (goto i (R_find s) (S\<lparr>rt := (rt S)\<lparr>read_queue := q\<rparr>\<rparr>)))"
| "work pf api i (R_find s) S =
     (case find_session_by_socket s (sess (rt S)) of
        None \<Rightarrow> Some (goto i R_pop S)
      | Some l \<Rightarrow> Some (goto i (R_lock s l) S))"
| "work pf api i (R_lock s l) S =
     (if owner S l = None then Some (goto i (R_recheck s l) (S\<lparr>owner := (owner S)(l \<mapsto> i)\<rparr>)) else None)"
| "work pf api i (R_recheck s l) S =
     (case find_session_by_socket s (sess (rt S)) of
        None \<Rightarrow> Some (goto i (R_unlock l) S)
      | Some r \<Rightarrow> Some (goto i (R_turn s l r) S))"
| "work pf api i (R_turn s l r) S =
     (if session_id (sess (rt S)) r = NONE then Some (goto i (R_shake s l r) S)
      else Some (goto i (R_msg s l r) S))"
| "work pf api i (R_shake s l r) S = shake_step pf api i s l r S"
| "work pf api i (R_add s l r v) S =
     Some (goto i (R_turn s l r) (set_sess (add_node s v (sess (rt S))) S))"
| "work pf api i (R_msg s l r) S = msg_step pf api i s l r S"
| "work pf api i (R_route s l r m v) S =
     (case find_session_by_id v (sess (rt S)) of
        None \<Rightarrow> Some (goto i (after_turn 0 s l r) S)
      | Some d \<Rightarrow> Some (goto i (R_push s l r m d) S))"
| "work pf api i (R_push s l r m d) S =
     Some (goto i (R_turn s l r) (S\<lparr>rt := forward d m (rt S)\<rparr>))"
| "work pf api i (R_remove s l) S =
     Some (goto i (R_unlock l) (set_sess (remove_locked s (sess (rt S))) S))"
| "work pf api i W_pop S =
     (case try_pop (write_queue (rt S)) of
        None \<Rightarrow> None
      | Some (t, q) \<Rightarrow>
          Some (goto i (W_find (fst t) (snd t)) (S\<lparr>rt := (rt S)\<lparr>write_queue := q\<rparr>\<rparr>)))"
| "work pf api i (W_find s m) S =
     (case find_session_by_socket s (sess (rt S)) of
        None \<Rightarrow> Some (goto i W_pop S)
      | Some l \<Rightarrow> Some (goto i (W_lock s m l) S))"
| "work pf api i (W_lock s m l) S =
     (if owner S l = None then Some (goto i (W_send s m l) (S\<lparr>owner := (owner S)(l \<mapsto> i)\<rparr>)) else None)"
| "work pf api i (W_send s m l) S =
     (case send_to_client api s m (world (rt S)) of (sent_byte, w) \<Rightarrow>
        if sent_byte = int (length m) then Some (goto i (W_unlock l) (set_world w S))
        else if sent_byte = SOCKET_ERROR then
          (case session_socket (sess (rt S)) l of
             None \<Rightarrow> Some (goto i (W_unlock l) (set_world w S))
           | Some s' \<Rightarrow> Some (goto i (W_remove s' l) (set_world w S)))
        else Some (goto i (W_unlock l) (set_world w S)))"
| "work pf api i (W_remove s l) S =
     Some (goto i (W_unlock l) (set_sess (remove_locked s (sess (rt S))) S))"
| "work pf api i (R_unlock l) S = Some (goto i R_pop (S\<lparr>owner := (owner S)(l := None)\<rparr>))"
| "work pf api i (W_unlock l) S = Some (goto i W_pop (S\<lparr>owner := (owner S)(l := None)\<rparr>))"
| "work pf api i (Thrown e) S = None"

section \<open>Steps of the event loop\<close>

fun event_step ::
    "platform \<Rightarrow> ('w, 'f, 'x) server_api_scheme \<Rightarrow> sock \<Rightarrow> 'f \<Rightarrow> main_pc \<Rightarrow> 'w threads \<Rightarrow>
     'w threads option" where
  "event_step pf api server fds M_top S =
     (case reset_fd_set api fds server (get_accpeted_sockets (sess (rt S))) of (fds1, max_sd) \<Rightarrow>
      case api_select api (max_sd + 1) fds1 (world (rt S)) of (activity, readfds, w) \<Rightarrow>
      if activity = SOCKET_ERROR then Some (set_world w S)
      else Some ((set_world w S)\<lparr>mpc := M_ready (take (nat activity) (api_fd_array api readfds))
             (api_FD_ISSET api server readfds)\<rparr>))"
| "event_step pf api server fds (M_ready ready isset) S =
     (if isset then
        (case tcp_accept_client pf api server (world (rt S)) of (c, w) \<Rightarrow>
           if c = SOCKET_ERROR then Some ((set_world w S)\<lparr>mpc := M_top\<rparr>)
           else Some ((set_world w S)\<lparr>mpc := M_register c ready\<rparr>))
      else Some (S\<lparr>mpc := M_push ready\<rparr>))"
| "event_step pf api server fds (M_register c ready) S =
     (case accept_client c (sess (rt S)) of
        Inl e \<Rightarrow> None
      | Inr st \<Rightarrow> Some ((set_sess st S)\<lparr>mpc := M_push ready\<rparr>))"
| "event_step pf api server fds (M_push []) S = Some (S\<lparr>mpc := M_top\<rparr>)"
| "event_step pf api server fds (M_push (s # ss)) S =
     Some ((if s \<noteq> server then S\<lparr>rt := (rt S)\<lparr>read_queue := push s True (read_queue (rt S))\<rparr>\<rparr> else S)
       \<lparr>mpc := M_push ss\<rparr>)"

section \<open>The interleaving\<close>

text \<open>The threads that \<^verbatim>\<open>Router::start\<close> creates, with their zeroed buffers, and the event loop.\<close>

definition threads0 :: "'w \<Rightarrow> 'w threads" where
  "threads0 w = \<lparr>rt = router0 w, owner = Map.empty,
     pcs = (\<lambda>i. if i < read_thread_count THREAD_COUNT then R_pop else W_pop),
     bufs = (\<lambda>i. replicate RECV_BUFF_SIZE NUL), mpc = M_top\<rparr>"

inductive thread_step ::
    "platform \<Rightarrow> ('w, 'f, 'x) server_api_scheme \<Rightarrow> sock \<Rightarrow> 'w threads \<Rightarrow> 'w threads \<Rightarrow> bool"
  for pf api server where
  worker: "i < unat THREAD_COUNT \<Longrightarrow> work pf api i (pcs S i) S = Some S' \<Longrightarrow>
    thread_step pf api server S S'"
| listener: "event_step pf api server fds (mpc S) S = Some S' \<Longrightarrow> thread_step pf api server S S'"

inductive thread_reach ::
    "platform \<Rightarrow> ('w, 'f, 'x) server_api_scheme \<Rightarrow> sock \<Rightarrow> 'w \<Rightarrow> 'w threads \<Rightarrow> bool"
  for pf api server w where
  initial: "thread_reach pf api server w (threads0 w)"
| later: "thread_reach pf api server w S \<Longrightarrow> thread_step pf api server S S' \<Longrightarrow>
    thread_reach pf api server w S'"

inductive_cases thread_stepE: "thread_step pf api server S S'"

lemma set_sess_fields [simp]:
  "pcs (set_sess st S) = pcs S" "sess (rt (set_sess st S)) = st"
  "pcs (set_world w S) = pcs S" "sess (rt (set_world w S)) = sess (rt S)"
  by (simp_all add: set_sess_def set_world_def)

section \<open>The invariant\<close>

text \<open>The session mutex a worker owns at a program counter.\<close>

fun holds :: "pc \<Rightarrow> ref option" where
  "holds (R_recheck s l) = Some l"
| "holds (R_turn s l r) = Some l"
| "holds (R_shake s l r) = Some l"
| "holds (R_add s l r v) = Some l"
| "holds (R_msg s l r) = Some l"
| "holds (R_route s l r m v) = Some l"
| "holds (R_push s l r m d) = Some l"
| "holds (R_remove s l) = Some l"
| "holds (W_send s m l) = Some l"
| "holds (W_remove s l) = Some l"
| "holds (R_unlock l) = Some l"
| "holds (W_unlock l) = Some l"
| "holds _ = None"

text \<open>
  What a worker knows at a program counter: the pointers it carries lead to the object of its
  socket, both lookups gave the same object, an object that is about to get its identifier has
  none, and messages have 32 bytes. No worker is left by an exception.
\<close>

fun pc_ok :: "sessions \<Rightarrow> pc \<Rightarrow> bool" where
  "pc_ok st (R_lock s l) \<longleftrightarrow> session_socket st l = Some s"
| "pc_ok st (R_recheck s l) \<longleftrightarrow> session_socket st l = Some s"
| "pc_ok st (R_turn s l r) \<longleftrightarrow> r = l \<and> session_socket st l = Some s"
| "pc_ok st (R_shake s l r) \<longleftrightarrow> r = l \<and> session_socket st l = Some s \<and> session_id st l = NONE"
| "pc_ok st (R_add s l r v) \<longleftrightarrow> r = l \<and> session_socket st l = Some s \<and> session_id st l = NONE"
| "pc_ok st (R_msg s l r) \<longleftrightarrow> r = l \<and> session_socket st l = Some s"
| "pc_ok st (R_route s l r m v) \<longleftrightarrow> r = l \<and> session_socket st l = Some s \<and> length m = 32"
| "pc_ok st (R_push s l r m d) \<longleftrightarrow> r = l \<and> session_socket st l = Some s \<and> length m = 32"
| "pc_ok st (R_remove s l) \<longleftrightarrow> session_socket st l = Some s"
| "pc_ok st (W_find s m) \<longleftrightarrow> length m = 32"
| "pc_ok st (W_lock s m l) \<longleftrightarrow> session_socket st l = Some s \<and> length m = 32"
| "pc_ok st (W_send s m l) \<longleftrightarrow> session_socket st l = Some s \<and> length m = 32"
| "pc_ok st (W_remove s l) \<longleftrightarrow> session_socket st l = Some s"
| "pc_ok st (Thrown e) \<longleftrightarrow> False"
| "pc_ok st _ \<longleftrightarrow> True"

text \<open>The program counters of the read handler up to the choice of its branch.\<close>

fun is_lookup :: "pc \<Rightarrow> bool" where
  "is_lookup R_pop \<longleftrightarrow> True"
| "is_lookup (R_find s) \<longleftrightarrow> True"
| "is_lookup (R_lock s l) \<longleftrightarrow> True"
| "is_lookup (R_recheck s l) \<longleftrightarrow> True"
| "is_lookup (R_turn s l r) \<longleftrightarrow> True"
| "is_lookup _ \<longleftrightarrow> False"

text \<open>No two session objects were ever made for one socket, and their sockets are in use.\<close>

definition heap_ok :: "sock set \<Rightarrow> sessions \<Rightarrow> bool" where
  "heap_ok used st \<longleftrightarrow> sessions_inv st \<and>
     (\<forall>r s. session_socket st r = Some s \<longrightarrow> s \<in> used) \<and>
     (\<forall>r r' s. session_socket st r = Some s \<longrightarrow> session_socket st r' = Some s \<longrightarrow> r = r')"

fun mpc_ok :: "sock set \<Rightarrow> sessions \<Rightarrow> main_pc \<Rightarrow> bool" where
  "mpc_ok used st (M_register c ready) \<longleftrightarrow> c \<in> used \<and> (\<forall>r. session_socket st r \<noteq> Some c)"
| "mpc_ok used st _ \<longleftrightarrow> True"

definition threads_inv :: "('w \<Rightarrow> sock set) \<Rightarrow> 'w threads \<Rightarrow> bool" where
  "threads_inv opened S \<longleftrightarrow>
     heap_ok (opened (world (rt S))) (sess (rt S)) \<and>
     (\<forall>i l. holds (pcs S i) = Some l \<longleftrightarrow> owner S l = Some i) \<and>
     (\<forall>i. pc_ok (sess (rt S)) (pcs S i)) \<and>
     mpc_ok (opened (world (rt S))) (sess (rt S)) (mpc S) \<and>
     (\<forall>t\<in>set (m_queue (write_queue (rt S))). length (snd t) = 32) \<and>
     (\<forall>i. length (bufs S i) = RECV_BUFF_SIZE) \<and> SOCKET_ERROR \<notin> opened (world (rt S))"

subsection \<open>Session objects\<close>

lemma session_socket_store: "session_socket st r = Some s \<longleftrightarrow> (\<exists>x. store st r = Some x \<and> s_socket x = s)"
  by (auto simp: session_socket_def get_socket_def)

lemma by_socket_session:
  "sessions_inv st \<Longrightarrow> sessions_by_socket st s = Some r \<Longrightarrow> session_socket st r = Some s"
  using sessions_inv_socket [of st s r] by (auto simp: session_socket_store)

lemma session_socket_remove [simp]: "session_socket (remove_locked s st) = session_socket st"
  "session_id (remove_locked s st) = session_id st"
  by (simp_all add: fun_eq_iff session_socket_def session_id_def remove_locked_fields)

lemma session_socket_add [simp]: "session_socket (add_node s v st) = session_socket st"
  by (auto simp: fun_eq_iff session_socket_def add_node_def set_id_def get_socket_def [abs_def]
      option.map_comp comp_def
      split: option.splits)

lemma session_id_add:
  "sessions_by_socket st s \<noteq> Some r \<Longrightarrow> session_id (add_node s v st) r = session_id st r"
  by (auto simp: session_id_def add_node_def split: option.splits)

lemma session_accept:
  assumes "accept_client c st = Inr st'" and "store st (next_ref st) = None"
  shows "session_socket st' = (session_socket st)(next_ref st \<mapsto> c)"
    and "session_socket st r \<noteq> None \<Longrightarrow> session_id st' r = session_id st r"
proof -
  have "sessions_by_socket st c = None"
    using assms(1) accept_client_relock by (cases "sessions_by_socket st c") auto
  note st' = assms(1) [unfolded accept_client_fresh [OF this], simplified, symmetric]
  show "session_socket st' = (session_socket st)(next_ref st \<mapsto> c)"
    by (auto simp: st' session_socket_def session_defs)
  show "session_id st' r = session_id st r" if "session_socket st r \<noteq> None"
    using that assms(2) by (auto simp: st' session_socket_def session_id_def)
qed

lemma heap_ok_remove: "heap_ok used st \<Longrightarrow> heap_ok used (remove_locked s st)"
  by (simp add: heap_ok_def remove_locked_inv)

lemma heap_ok_add:
  assumes "heap_ok used st" and "session_socket st l = Some s" and "session_id st l = NONE"
  shows "heap_ok used (add_node s v st)"
proof -
  have "session_id st r = NONE" if "sessions_by_socket st s = Some r" for r
    using by_socket_session [OF _ that] assms unfolding heap_ok_def by metis
  with assms(1) show ?thesis by (simp add: heap_ok_def add_node_inv)
qed

lemma heap_ok_accept:
  assumes "heap_ok used st" and "accept_client c st = Inr st'"
    and "c \<in> used" and "\<forall>r. session_socket st r \<noteq> Some c"
  shows "heap_ok used st'"
proof -
  have inv: "sessions_inv st" using assms(1) by (simp add: heap_ok_def)
  note ss = session_accept(1) [OF assms(2) sessions_inv_fresh(1) [OF inv]]
  show ?thesis
    using assms accept_client_inv [OF inv assms(2)] unfolding heap_ok_def ss
    by (auto split: if_splits)
qed

subsection \<open>What the other workers know stays true\<close>

lemma pc_ok_remove [simp]: "pc_ok (remove_locked s st) p \<longleftrightarrow> pc_ok st p"
  by (cases p) auto

lemma pc_ok_add:
  assumes "pc_ok st p" and "heap_ok used st" and "session_socket st l = Some s" and "holds p \<noteq> Some l"
  shows "pc_ok (add_node s v st) p"
proof -
  have "sessions_by_socket st s \<noteq> Some r" if "holds p = Some r" for r
    using by_socket_session [of st s r] assms(2-4) that unfolding heap_ok_def by metis
  then show ?thesis using assms(1) by (cases p) (auto simp: session_id_add)
qed

lemma pc_ok_accept:
  assumes "pc_ok st p" and "accept_client c st = Inr st'" and "sessions_inv st"
  shows "pc_ok st' p"
proof -
  have fresh: "store st (next_ref st) = None" by (rule sessions_inv_fresh(1) [OF assms(3)])
  then have "session_socket st (next_ref st) = None" by (simp add: session_socket_def)
  then have keep: "session_socket st' r = Some s" "session_id st' r = session_id st r"
    if "session_socket st r = Some s" for r s
    using that session_accept(2) [OF assms(2) fresh, of r]
    by (auto simp: session_accept(1) [OF assms(2) fresh])
  show ?thesis using assms(1) by (cases p) (auto simp: keep)
qed

subsection \<open>Elementary changes of the state\<close>

lemma inv_goto:
  assumes "threads_inv opened S" and "holds p = holds (pcs S i)" and "pc_ok (sess (rt S)) p"
  shows "threads_inv opened (goto i p S)"
  using assms by (simp add: threads_inv_def goto_def)

lemma inv_world:
  assumes "threads_inv opened S" and "opened w = opened (world (rt S))"
  shows "threads_inv opened (set_world w S)"
  using assms by (simp add: threads_inv_def set_world_def)

lemma inv_buf:
  assumes "threads_inv opened S" and "length buf = RECV_BUFF_SIZE"
  shows "threads_inv opened (S\<lparr>bufs := (bufs S)(i := buf)\<rparr>)"
  using assms by (simp add: threads_inv_def)

lemma inv_read_queue:
  "threads_inv opened S \<Longrightarrow> threads_inv opened (S\<lparr>rt := (rt S)\<lparr>read_queue := q\<rparr>\<rparr>)"
  by (simp add: threads_inv_def)

lemma inv_write_queue:
  assumes "threads_inv opened S" and "\<forall>t\<in>set (m_queue q). length (snd t) = 32"
  shows "threads_inv opened (S\<lparr>rt := (rt S)\<lparr>write_queue := q\<rparr>\<rparr>)"
  using assms by (simp add: threads_inv_def)

lemma inv_lock:
  assumes "threads_inv opened S" and "owner S l = None" and "holds (pcs S i) = None"
    and "holds p = Some l" and "pc_ok (sess (rt S)) p"
  shows "threads_inv opened (goto i p (S\<lparr>owner := (owner S)(l \<mapsto> i)\<rparr>))"
  using assms unfolding threads_inv_def goto_def by (auto split: if_splits) (metis option.distinct(1))+

lemma inv_unlock:
  assumes "threads_inv opened S" and "holds (pcs S i) = Some l" and "holds p = None"
    and "pc_ok (sess (rt S)) p"
  shows "threads_inv opened (goto i p (S\<lparr>owner := (owner S)(l := None)\<rparr>))"
  using assms unfolding threads_inv_def goto_def by (auto split: if_splits) (metis option.inject)+

lemma inv_remove:
  "threads_inv opened S \<Longrightarrow> threads_inv opened (set_sess (remove_locked s (sess (rt S))) S)"
  by (cases "mpc S") (simp_all add: threads_inv_def set_sess_def heap_ok_remove)

lemmas inv_parts = threads_inv_def heap_ok_def

lemma inv_add:
  assumes inv: "threads_inv opened S" and pc: "pcs S i = R_add s l r v"
  shows "threads_inv opened (goto i (R_turn s l r) (set_sess (add_node s v (sess (rt S))) S))"
proof -
  have k: "r = l" "session_socket (sess (rt S)) l = Some s" "session_id (sess (rt S)) l = NONE"
    using inv pc unfolding threads_inv_def by (metis pc_ok.simps(5))+
  have heap: "heap_ok (opened (world (rt S))) (sess (rt S))" using inv by (simp add: threads_inv_def)
  have own: "owner S la = Some i \<longleftrightarrow> la = l" for la
    using inv pc unfolding threads_inv_def by (metis holds.simps(4) option.inject)
  have "pc_ok (add_node s v (sess (rt S))) (pcs S j)" if "j \<noteq> i" for j
  proof (rule pc_ok_add [OF _ heap k(2)])
    show "pc_ok (sess (rt S)) (pcs S j)" using inv by (simp add: threads_inv_def)
    show "holds (pcs S j) \<noteq> Some l"
      using inv own [of l] that unfolding threads_inv_def by auto
  qed
  moreover have "mpc_ok (opened (world (rt S))) (add_node s v (sess (rt S))) (mpc S)"
    using inv by (cases "mpc S") (simp_all add: threads_inv_def)
  ultimately show ?thesis
    using inv heap_ok_add [OF heap k(2,3)] k own
    by (auto simp: threads_inv_def goto_def set_sess_def)
qed

lemma inv_register:
  assumes inv: "threads_inv opened S" and pc: "mpc S = M_register c ready"
    and acc: "accept_client c (sess (rt S)) = Inr st"
  shows "threads_inv opened ((set_sess st S)\<lparr>mpc := M_push ready\<rparr>)"
proof -
  have heap: "heap_ok (opened (world (rt S))) (sess (rt S))"
    and c: "c \<in> opened (world (rt S))" "\<forall>r. session_socket (sess (rt S)) r \<noteq> Some c"
    using inv pc by (simp_all add: threads_inv_def)
  then have "sessions_inv (sess (rt S))" by (simp add: heap_ok_def)
  with heap_ok_accept [OF heap acc c] pc_ok_accept [OF _ acc] inv show ?thesis
    by (simp add: threads_inv_def set_sess_def)
qed

subsection \<open>Reading and sending do not change the descriptors in use\<close>

context descriptor_api
begin

lemma read_loop_opened:
  assumes "read_loop pf api s n got buf w = Some res"
  shows "opened (snd (snd res)) = opened w"
  by (rule read_loop_keeps [OF _ assms]) (metis recv_keeps_def recv_opened prod.collapse)

end

section \<open>Waiting\<close>

text \<open>The mutex a worker is about to lock.\<close>

fun wants :: "pc \<Rightarrow> ref option" where
  "wants (R_lock s l) = Some l"
| "wants (W_lock s m l) = Some l"
| "wants _ = None"

lemma work_blocked:
  assumes "work pf api i (pcs S i) S = None" and "holds (pcs S i) = None" and "\<And>e. pcs S i \<noteq> Thrown e"
  shows "pcs S i = R_pop \<and> m_queue (read_queue (rt S)) = [] \<or>
    pcs S i = W_pop \<and> m_queue (write_queue (rt S)) = [] \<or>
    (\<exists>l. wants (pcs S i) = Some l \<and> owner S l \<noteq> None)"
  using assms
  by (cases "pcs S i") (auto simp: try_pop_def split: list.splits option.splits if_splits)

section \<open>Every step keeps the invariant\<close>

locale router_os = recv_api api + descriptor_api api opened
  for api :: "('w, 'f, 'x) server_api_scheme" and opened

lemma terminate_split: "n < length buf \<Longrightarrow> buf[n := NUL] = take n buf @ NUL # drop (Suc n) buf"
  by (simp add: upd_conv_take_nth_drop)

context router_os
begin

text \<open>A read keeps the size of the buffer and the descriptors in use.\<close>

lemma read_async_frame:
  assumes "read_async pf api s buf n w = Some (k, buf', w')" and "0 < n" and "n \<le> length buf"
  shows "length buf' = length buf" "opened w' = opened w"
proof -
  from read_async_ok [OF assms(2,3), of pf s w] assms(1) show "length buf' = length buf" by auto
  show "opened w' = opened w"
    using read_loop_opened [of pf s n 0 buf w "(k, buf', w')"] assms(1) by (simp add: read_async_def)
qed

lemma inv_after_read:
  assumes inv: "threads_inv opened S"
    and rd: "read_async pf api s (bufs S i) n (world (rt S)) = Some (k, buf, w)"
    and n: "0 < n" "n \<le> RECV_BUFF_SIZE" and buf': "length buf' = length buf"
    and p: "holds p = holds (pcs S i)" "pc_ok (sess (rt S)) p"
  shows "threads_inv opened (goto i p ((set_world w S)\<lparr>bufs := (bufs S)(i := buf')\<rparr>))"
proof -
  have l: "length (bufs S i) = RECV_BUFF_SIZE" using inv by (simp add: threads_inv_def)
  note f = read_async_frame [OF rd n(1) n(2) [folded l]]
  from inv_buf [OF inv_world [OF inv f(2)], of buf' i] f(1) l buf'
  have "threads_inv opened ((set_world w S)\<lparr>bufs := (bufs S)(i := buf')\<rparr>)"
    by (simp add: set_world_def)
  then show ?thesis using p by (intro inv_goto) (simp_all add: set_world_def)
qed

lemma inv_shake:
  assumes inv: "threads_inv opened S" and pc: "pcs S i = R_shake s l r"
    and st: "shake_step pf api i s l r S = Some S'"
  shows "threads_inv opened S'"
proof -
  have ok: "pc_ok (sess (rt S)) (R_shake s l r)" using inv pc unfolding threads_inv_def by metis
  obtain k buf w where rd: "read_async pf api s (bufs S i) 3 (world (rt S)) = Some (k, buf, w)"
    using st by (auto simp: shake_step_def ID_MESSAGE_SIZE_def split: option.splits)
  have l: "length (bufs S i) = RECV_BUFF_SIZE" using inv by (simp add: threads_inv_def)
  have "length buf = RECV_BUFF_SIZE"
    using read_async_frame(1) [OF rd] l by (simp add: RECV_BUFF_SIZE_def)
  then have x: "extract_src_id (buf[3 := NUL]) 3 = Inr (parse_id (take 3 buf))"
    by (simp add: terminate_split RECV_BUFF_SIZE_def extract_src_id_parse)
  note keep = inv_after_read [OF inv rd]
  show ?thesis
  proof (cases "k = 3")
    case True
    with st rd x have "S' = goto i (R_add s l r (parse_id (take 3 buf)))
        ((set_world w S)\<lparr>bufs := (bufs S)(i := buf[3 := NUL])\<rparr>)"
      by (simp add: shake_step_def ID_MESSAGE_SIZE_def Let_def)
    with ok pc show ?thesis by (auto intro!: keep simp: RECV_BUFF_SIZE_def)
  next
    case False
    with st rd have "S' = goto i (after_turn k s l r) ((set_world w S)\<lparr>bufs := (bufs S)(i := buf)\<rparr>)"
      by (simp add: shake_step_def ID_MESSAGE_SIZE_def Let_def)
    with ok pc show ?thesis by (auto intro!: keep simp: RECV_BUFF_SIZE_def after_turn_def)
  qed
qed

lemma inv_msg:
  assumes inv: "threads_inv opened S" and pc: "pcs S i = R_msg s l r"
    and st: "msg_step pf api i s l r S = Some S'"
  shows "threads_inv opened S'"
proof -
  have ok: "pc_ok (sess (rt S)) (R_msg s l r)" using inv pc unfolding threads_inv_def by metis
  obtain k buf w where rd: "read_async pf api s (bufs S i) 32 (world (rt S)) = Some (k, buf, w)"
    using st by (auto simp: msg_step_def DATA_MESSAGE_SIZE_def split: option.splits)
  have l: "length (bufs S i) = RECV_BUFF_SIZE" using inv by (simp add: threads_inv_def)
  have lb: "length buf = RECV_BUFF_SIZE"
    using read_async_frame(1) [OF rd] l by (simp add: RECV_BUFF_SIZE_def)
  then have x: "extract_dst_id (buf[32 := NUL]) 32 = Inr (parse_id (drop 29 (take 32 buf)))"
    by (simp add: terminate_split RECV_BUFF_SIZE_def extract_dst_id_parse del: drop_take)
  note keep = inv_after_read [OF inv rd]
  show ?thesis
  proof (cases "k = 32")
    case True
    with st rd x have "S' = goto i
        (R_route s l r (take 32 (buf[32 := NUL])) (parse_id (drop 29 (take 32 buf))))
        ((set_world w S)\<lparr>bufs := (bufs S)(i := buf[32 := NUL])\<rparr>)"
      by (simp add: msg_step_def DATA_MESSAGE_SIZE_def Let_def)
    with ok pc lb show ?thesis by (auto intro!: keep simp: RECV_BUFF_SIZE_def)
  next
    case False
    with st rd have "S' = goto i (after_turn k s l r) ((set_world w S)\<lparr>bufs := (bufs S)(i := buf)\<rparr>)"
      by (simp add: msg_step_def DATA_MESSAGE_SIZE_def Let_def)
    with ok pc show ?thesis by (auto intro!: keep simp: RECV_BUFF_SIZE_def after_turn_def)
  qed
qed

text \<open>The remaining steps of a worker, by program counter: the lookups and locks of the read
  handler, its updates, and the write handler.\<close>

lemma known:
  assumes "threads_inv opened S"
  shows "pc_ok (sess (rt S)) (pcs S i)" and "sessions_inv (sess (rt S))"
    and "\<forall>t\<in>set (m_queue (write_queue (rt S))). length (snd t) = 32"
  using assms by (simp_all add: inv_parts)

lemma same_session:
  assumes "threads_inv opened S" and "session_socket (sess (rt S)) l = Some s"
    and "sessions_by_socket (sess (rt S)) s = Some r"
  shows "r = l"
  using assms by_socket_session [OF known(2) [OF assms(1)] assms(3)] unfolding inv_parts by blast

lemma inv_work_lookup:
  assumes inv: "threads_inv opened S" and st: "work pf api i (pcs S i) S = Some S'"
    and p: "is_lookup (pcs S i)"
  shows "threads_inv opened S'"
proof (cases "pcs S i")
  case R_pop
  with st show ?thesis
    by (auto split: option.splits intro!: inv_goto inv_read_queue [OF inv])
next
  case (R_find s)
  with st by_socket_session [OF known(2) [OF inv]] show ?thesis
    by (auto simp: find_session_by_socket_def split: option.splits intro!: inv_goto [OF inv])
next
  case (R_lock s l)
  with st known(1) [OF inv, of i] show ?thesis
    by (auto split: if_splits intro!: inv_lock [OF inv])
next
  case (R_recheck s l)
  with st known(1) [OF inv, of i] same_session [OF inv, of l s] show ?thesis
    by (auto simp: find_session_by_socket_def split: option.splits intro!: inv_goto [OF inv])
next
  case (R_turn s l r)
  with st known(1) [OF inv, of i] show ?thesis
    by (auto split: if_splits intro!: inv_goto [OF inv])
qed (use p in auto)

lemma inv_push:
  assumes inv: "threads_inv opened S" and pc: "pcs S i = R_push s l r m d"
  shows "threads_inv opened (goto i (R_turn s l r) (S\<lparr>rt := forward d m (rt S)\<rparr>))"
proof -
  have "threads_inv opened (S\<lparr>rt := forward d m (rt S)\<rparr>)"
    using known(1) [OF inv, of i] known(3) [OF inv] pc inv
    by (auto simp: forward_def m_queue_push split: option.splits intro!: inv_write_queue)
  moreover have "sess (forward d m (rt S)) = sess (rt S)"
    by (simp add: forward_def split: option.splits)
  ultimately show ?thesis using known(1) [OF inv, of i] pc by (auto intro!: inv_goto)
qed

lemma inv_send:
  assumes inv: "threads_inv opened S" and pc: "pcs S i = W_send s m l"
    and st: "work pf api i (W_send s m l) S = Some S'"
  shows "threads_inv opened S'"
proof -
  obtain k w where sd: "send_to_client api s m (world (rt S)) = (k, w)" by fastforce
  then have "opened w = opened (world (rt S))"
    by (auto simp: send_to_client_def split: prod.splits if_splits dest: send_opened)
  note inv_goto [OF inv_world [OF inv this]]
  with st pc known(1) [OF inv, of i] sd show ?thesis by (auto split: if_splits)
qed

lemma inv_work:
  assumes inv: "threads_inv opened S" and st: "work pf api i (pcs S i) S = Some S'"
  shows "threads_inv opened S'"
proof (cases "pcs S i")
  case (R_route s l r m v)
  with st known(1) [OF inv, of i] show ?thesis
    by (auto simp: after_turn_def SOCKET_ERROR_def split: option.splits intro!: inv_goto [OF inv])
next
  case W_pop
  with st known(3) [OF inv] show ?thesis
    by (auto simp: try_pop_def split: option.splits list.splits
        intro!: inv_goto inv_write_queue [OF inv])
next
  case (W_find s m)
  with st known(1) [OF inv, of i] by_socket_session [OF known(2) [OF inv]] show ?thesis
    by (auto simp: find_session_by_socket_def split: option.splits intro!: inv_goto [OF inv])
next
  case (W_lock s m l)
  with st known(1) [OF inv, of i] show ?thesis
    by (auto split: if_splits intro!: inv_lock [OF inv])
qed (use st known(1) [OF inv, of i] inv_work_lookup [OF inv st] in
    \<open>auto intro: inv_shake [OF inv] inv_add [OF inv] inv_msg [OF inv] inv_push [OF inv]
      inv_send [OF inv] intro!: inv_goto [OF inv_remove [OF inv]] inv_unlock [OF inv]\<close>)

lemma inv_mpc:
  assumes "threads_inv opened S" and "mpc_ok (opened (world (rt S))) (sess (rt S)) m"
  shows "threads_inv opened (S\<lparr>mpc := m\<rparr>)"
  using assms by (simp add: threads_inv_def)

lemma inv_accept:
  assumes inv: "threads_inv opened S" and acc: "tcp_accept_client pf api server (world (rt S)) = (c, w)"
  shows "threads_inv opened ((set_world w S)\<lparr>mpc :=
    (if c = SOCKET_ERROR then M_top else M_register c ready)\<rparr>)"
proof -
  have heap: "heap_ok (opened (world (rt S))) (sess (rt S))" and err: "SOCKET_ERROR \<notin> opened (world (rt S))"
    using inv by (simp_all add: threads_inv_def)
  from tcp_accept_client_opened [OF acc err]
  consider "c = SOCKET_ERROR" "opened w = opened (world (rt S))"
    | "0 \<le> c" "c \<notin> opened (world (rt S))" "opened w = insert c (opened (world (rt S)))" by blast
  then show ?thesis
  proof cases
    case 1
    then show ?thesis using inv_mpc [OF inv_world [OF inv 1(2)], of M_top] by simp
  next
    case 2
    then have "c \<noteq> SOCKET_ERROR" "\<forall>r. session_socket (sess (rt S)) r \<noteq> Some c"
      using heap by (auto simp: SOCKET_ERROR_def heap_ok_def)
    moreover have "heap_ok (opened w) (sess (rt S))" using heap 2(3) by (auto simp: heap_ok_def)
    ultimately show ?thesis using inv 2(3) err by (simp add: threads_inv_def set_world_def)
  qed
qed

lemma inv_event:
  assumes inv: "threads_inv opened S" and st: "event_step pf api server fds m S = Some S'"
    and m: "mpc S = m"
  shows "threads_inv opened S'"
proof (cases m)
  case M_top
  obtain fds1 mx where f: "reset_fd_set api fds server (get_accpeted_sockets (sess (rt S))) = (fds1, mx)"
    by fastforce
  obtain k rf w where sl: "api_select api (mx + 1) fds1 (world (rt S)) = (k, rf, w)"
    by (metis prod_cases3)
  note inv_world [OF inv select_opened [OF sl]]
  with M_top st f sl show ?thesis by (auto split: if_splits intro!: inv_mpc)
next
  case (M_ready ready isset)
  show ?thesis
  proof (cases isset)
    case True
    obtain c w where acc: "tcp_accept_client pf api server (world (rt S)) = (c, w)" by fastforce
    from inv_accept [OF inv acc, of ready] M_ready True st acc show ?thesis
      by (auto split: if_splits)
  next
    case False
    with M_ready st show ?thesis by (auto intro!: inv_mpc [OF inv])
  qed
next
  case (M_register c ready)
  with st m show ?thesis by (auto split: sum.splits intro: inv_register [OF inv])
next
  case (M_push ss)
  with st show ?thesis
    by (cases ss) (auto split: if_splits intro!: inv_mpc [OF inv] inv_mpc [OF inv_read_queue [OF inv]])
qed

lemma inv_step: "threads_inv opened S \<Longrightarrow> thread_step pf api server S S' \<Longrightarrow> threads_inv opened S'"
  by (auto elim!: thread_stepE intro: inv_work inv_event)

lemma inv_initial: "SOCKET_ERROR \<notin> opened w \<Longrightarrow> threads_inv opened (threads0 w)"
  by (auto simp: threads_inv_def threads0_def router0_def heap_ok_def sessions0_def session_socket_def
      squeue0_def sessions_inv_def)

lemma inv_reach:
  assumes "thread_reach pf api server w S" and "SOCKET_ERROR \<notin> opened w"
  shows "threads_inv opened S"
  using assms(1) by induction (auto intro: inv_initial [OF assms(2)] inv_step)

section \<open>Consequences\<close>

lemma mutex_exclusive:
  assumes "threads_inv opened S" and "holds (pcs S i) = Some l" and "holds (pcs S j) = Some l"
  shows "i = j"
  using assms unfolding threads_inv_def by (metis option.inject)

text \<open>The event loop never meets a socket that is still registered.\<close>

lemma no_relock:
  assumes inv: "threads_inv opened S" and "mpc S = M_register c ready"
  shows "\<exists>st. accept_client c (sess (rt S)) = Inr st"
proof -
  have "sessions_inv (sess (rt S))" "\<forall>r. session_socket (sess (rt S)) r \<noteq> Some c"
    using inv assms(2) by (simp_all add: inv_parts)
  then have "sessions_by_socket (sess (rt S)) c = None"
    using by_socket_session by (cases "sessions_by_socket (sess (rt S)) c") auto
  then show ?thesis by (simp add: accept_client_fresh)
qed

text \<open>A worker that owns a session's mutex is never blocked.\<close>

lemma owner_runs:
  assumes inv: "threads_inv opened S" and h: "holds (pcs S i) = Some l"
  shows "\<exists>S'. work pf api i (pcs S i) S = Some S'"
proof -
  have len: "length (bufs S i) = RECV_BUFF_SIZE" using inv by (simp add: threads_inv_def)
  have rd: "\<exists>res. read_async pf api s (bufs S i) n w = Some res" if "0 < n" "n \<le> 32" for s n w
    using read_async_ok [of n "bufs S i" pf s w] that len by (fastforce simp: RECV_BUFF_SIZE_def)
  from rd [of 3] rd [of 32] h show ?thesis
    by (cases "pcs S i")
      (auto simp: shake_step_def msg_step_def ID_MESSAGE_SIZE_def DATA_MESSAGE_SIZE_def Let_def
        split: option.splits sum.splits prod.splits)
qed

text \<open>No reachable state is stuck: the event loop can always take a step.\<close>

lemma listener_runs:
  assumes "threads_inv opened S"
  shows "\<exists>S'. event_step pf api server fds (mpc S) S = Some S'"
proof (cases "mpc S")
  case (M_register c ready)
  with no_relock [OF assms] show ?thesis by auto
next
  case (M_push ss)
  then show ?thesis by (cases ss) auto
qed (auto split: prod.splits)

text \<open>What a worker that cannot take a step waits for.\<close>

lemma blocked_worker:
  assumes inv: "threads_inv opened S" and blocked: "work pf api i (pcs S i) S = None"
  shows "pcs S i = R_pop \<and> m_queue (read_queue (rt S)) = [] \<or>
    pcs S i = W_pop \<and> m_queue (write_queue (rt S)) = [] \<or>
    (\<exists>l j S'. wants (pcs S i) = Some l \<and> owner S l = Some j \<and> j \<noteq> i \<and>
       work pf api j (pcs S j) S = Some S')"
proof -
  have no: "holds (pcs S i) = None"
    using owner_runs [OF inv, of i _ pf] blocked by (metis option.distinct(1) option.exhaust)
  have "pcs S i \<noteq> Thrown e" for e using known(1) [OF inv, of i] by auto
  from work_blocked [OF blocked no this]
  consider (queue) "pcs S i = R_pop \<and> m_queue (read_queue (rt S)) = [] \<or>
      pcs S i = W_pop \<and> m_queue (write_queue (rt S)) = []"
    | (mutex) l j where "wants (pcs S i) = Some l" "owner S l = Some j" by auto
  then show ?thesis
  proof cases
    case (mutex l j)
    then have j: "holds (pcs S j) = Some l" using inv by (simp add: threads_inv_def)
    with no have "j \<noteq> i" by auto
    with mutex owner_runs [OF inv j, of pf] show ?thesis by blast
  qed blast
qed

end

end
