(* ===== verification/Thread_Handlers.thy ===== *)
theory Thread_Handlers
  imports Router_Threads
begin

text \<open>
  The steps of a worker against the handlers of \<open>Router_Handlers\<close>: a worker that runs alone from
  the moment it has taken an element of its queue until it is back at its queue changes the state
  exactly as \<open>do_reads\<close> or \<open>do_writes\<close> does, and gives every mutex back. The event loop that runs
  alone does what \<open>event_pass\<close> does.
\<close>

section \<open>Runs of one worker\<close>

definition alone ::
    "platform \<Rightarrow> ('w, 'x) sock_api_scheme \<Rightarrow> nat \<Rightarrow> 'w threads \<Rightarrow> 'w threads \<Rightarrow> bool" where
  "alone pf api i = (\<lambda>S S'. work pf api i (pcs S i) S = Some S')\<^sup>*\<^sup>*"

lemma alone_refl [intro]: "alone pf api i S S"
  by (simp add: alone_def)

lemma alone_trans: "alone pf api i S S' \<Longrightarrow> alone pf api i S' S'' \<Longrightarrow> alone pf api i S S''"
  by (simp add: alone_def)

lemma alone_step: "work pf api i (pcs S i) S = Some S' \<Longrightarrow> alone pf api i S' S'' \<Longrightarrow> alone pf api i S S''"
  unfolding alone_def by (rule converse_rtranclp_into_rtranclp)

text \<open>The state of worker \<open>i\<close> and of what the handlers change, set at once.\<close>

definition at :: "nat \<Rightarrow> pc \<Rightarrow> buffer \<Rightarrow> 'w router \<Rightarrow> 'w threads \<Rightarrow> 'w threads" where
  "at i p buf R S = S\<lparr>rt := R, pcs := (pcs S)(i := p), bufs := (bufs S)(i := buf)\<rparr>"

lemma at_simps [simp]:
  "rt (at i p buf R S) = R" "pcs (at i p buf R S) i = p" "bufs (at i p buf R S) i = buf"
  "owner (at i p buf R S) = owner S" "at i p buf R (at i p' buf' R' S) = at i p buf R S"
  "goto i p (at i p' buf R S) = at i p buf R S"
  "set_sess st (at i p buf R S) = at i p buf (R\<lparr>sess := st\<rparr>) S"
  "set_world w (at i p buf R S) = at i p buf (R\<lparr>world := w\<rparr>) S"
  "(at i p buf R S)\<lparr>rt := R'\<rparr> = at i p buf R' S"
  "(at i p buf R S)\<lparr>bufs := (bufs (at i p' b R' S))(i := buf')\<rparr> = at i p buf' R S"
  "at i (pcs S i) (bufs S i) (rt S) S = S"
  by (simp_all add: at_def goto_def set_sess_def set_world_def)

lemma at_step:
  "work pf api i p (at i p buf R S) = Some S' \<Longrightarrow> alone pf api i S' S'' \<Longrightarrow>
   alone pf api i (at i p buf R S) S''"
  by (rule alone_step) simp_all

section \<open>The read handler\<close>

lemma turn_handshake:
  assumes "handle_handshake pf api s buf R = Some (Inr (k, buf', R'))"
  shows "alone pf api i (at i (R_shake s l r) buf R S) (at i (after_turn k s l r) buf' R' S)"
proof -
  obtain n b w where ra: "read_async pf api s buf ID_MESSAGE_SIZE (world R) = Some (n, b, w)"
    using assms by (auto simp: handle_handshake_def split: option.splits)
  show ?thesis
  proof (cases "n = int ID_MESSAGE_SIZE")
    case True
    with assms ra obtain v where v: "extract_src_id (b[ID_MESSAGE_SIZE := NUL]) n = Inr v"
      "k = n" "buf' = b[ID_MESSAGE_SIZE := NUL]" "R' = R\<lparr>world := w, sess := add_node s v (sess R)\<rparr>"
      by (auto simp: handle_handshake_def Let_def split: sum.splits)
    then have "alone pf api i (at i (R_add s l r v) buf' (R\<lparr>world := w\<rparr>) S)
        (at i (after_turn k s l r) buf' R' S)"
      using True by (intro alone_step [OF _ alone_refl]) (simp add: after_turn_def ID_MESSAGE_SIZE_def)
    then show ?thesis
      by (rule alone_step [rotated]) (use True ra v in \<open>simp add: shake_step_def Let_def\<close>)
  next
    case False
    with assms ra have "k = n" "buf' = b" "R' = R\<lparr>world := w\<rparr>"
      by (auto simp: handle_handshake_def Let_def)
    with False ra show ?thesis
      by (intro alone_step [OF _ alone_refl]) (simp add: shake_step_def)
  qed
qed

lemma turn_message:
  assumes "process_message pf api s buf R = Some (Inr (k, buf', R'))"
  shows "alone pf api i (at i (R_msg s l r) buf R S) (at i (after_turn k s l r) buf' R' S)"
proof -
  obtain n b w where ra: "read_async pf api s buf DATA_MESSAGE_SIZE (world R) = Some (n, b, w)"
    using assms by (auto simp: process_message_def split: option.splits)
  show ?thesis
  proof (cases "n = int DATA_MESSAGE_SIZE")
    case True
    define b1 where "b1 = b[DATA_MESSAGE_SIZE := NUL]"
    define m where "m = take DATA_MESSAGE_SIZE b1"
    from assms ra True obtain v where v: "extract_dst_id b1 n = Inr v"
      by (auto simp: process_message_def Let_def b1_def split: sum.splits)
    have "alone pf api i (at i (R_route s l r m v) b1 (R\<lparr>world := w\<rparr>) S)
        (at i (after_turn k s l r) buf' R' S)"
    proof (cases "find_session_by_id v (sess R)")
      case None
      with assms ra True v show ?thesis
        by (intro alone_step [OF _ alone_refl]) (auto simp: process_message_def Let_def b1_def)
    next
      case (Some d)
      with assms ra True v have "k = n" "buf' = b1" "R' = forward d m (R\<lparr>world := w\<rparr>)"
        by (auto simp: process_message_def Let_def b1_def m_def)
      then have "alone pf api i (at i (R_push s l r m d) b1 (R\<lparr>world := w\<rparr>) S)
          (at i (after_turn k s l r) buf' R' S)"
        using True by (intro alone_step [OF _ alone_refl]) (simp add: after_turn_def DATA_MESSAGE_SIZE_def)
      then show ?thesis by (rule alone_step [rotated]) (simp add: Some)
    qed
    then show ?thesis
      by (rule alone_step [rotated])
        (use True ra v in \<open>simp add: msg_step_def Let_def b1_def [symmetric] m_def [symmetric]\<close>)
  next
    case False
    with assms ra have "k = n" "buf' = b" "R' = R\<lparr>world := w\<rparr>"
      by (auto simp: process_message_def Let_def)
    with False ra show ?thesis
      by (intro alone_step [OF _ alone_refl]) (simp add: msg_step_def)
  qed
qed

text \<open>All turns of the loop, up to the program counter behind it.\<close>

lemma loop_alone:
  assumes "reads_loop pf api s r buf R = Some res"
  shows "\<forall>k buf' R'. res = Inr (k, buf', R') \<longrightarrow>
    k \<le> 0 \<and> alone pf api i (at i (R_turn s l r) buf R S) (at i (after_turn k s l r) buf' R' S)"
proof (rule reads_loop.raw_induct [OF _ assms, where P = "\<lambda>pf api s r buf R res.
    \<forall>k buf' R'. res = Inr (k, buf', R') \<longrightarrow>
    k \<le> 0 \<and> alone pf api i (at i (R_turn s l r) buf R S) (at i (after_turn k s l r) buf' R' S)"],
    goal_cases)
  case (1 loop pf api s r buf R res)
  let ?turn = "if session_id (sess R) r = NONE then handle_handshake pf api s buf R
    else process_message pf api s buf R"
  show ?case
  proof (intro allI impI)
    fix k buf' R' assume "res = Inr (k, buf', R')"
    with 1(2) obtain n b1 R1 where t: "?turn = Some (Inr (n, b1, R1))"
      and rest: "(if 0 < n then loop pf api s r b1 R1 else Some (Inr (n, b1, R1))) =
        Some (Inr (k, buf', R'))"
      by (cases ?turn) (auto split: sum.splits)
    have first: "alone pf api i (at i (R_turn s l r) buf R S) (at i (after_turn n s l r) b1 R1 S)"
    proof (cases "session_id (sess R) r = NONE")
      case True
      with t have "handle_handshake pf api s buf R = Some (Inr (n, b1, R1))" by simp
      from turn_handshake [OF this] show ?thesis
        by (rule alone_step [rotated]) (simp add: True)
    next
      case False
      with t have "process_message pf api s buf R = Some (Inr (n, b1, R1))" by simp
      from turn_message [OF this] show ?thesis
        by (rule alone_step [rotated]) (simp add: False)
    qed
    show "k \<le> 0 \<and> alone pf api i (at i (R_turn s l r) buf R S) (at i (after_turn k s l r) buf' R' S)"
    proof (cases "0 < n")
      case True
      with rest 1(1) [of pf api s r b1 R1 "Inr (k, buf', R')"]
      have "k \<le> 0" "alone pf api i (at i (R_turn s l r) b1 R1 S) (at i (after_turn k s l r) buf' R' S)"
        by simp_all
      with True first show ?thesis by (auto simp: after_turn_def intro: alone_trans)
    next
      case False
      with rest first show ?thesis by simp
    qed
  qed
qed

lemma goto_owner_at [simp]:
  "(at i p buf R S)\<lparr>owner := f\<rparr> = at i p buf R (S\<lparr>owner := f\<rparr>)"
  "at i p buf R (S\<lparr>owner := f\<rparr>)\<lparr>owner := g\<rparr> = at i p buf R (S\<lparr>owner := g\<rparr>)"
  by (simp_all add: at_def)

lemma owner_restored: "owner S l = None \<Longrightarrow> S\<lparr>owner := (owner S)(l := None)\<rparr> = S"
  by (metis fun_upd_triv threads.surjective threads.update_convs(2))

lemma reader_alone:
  assumes "do_reads pf api s buf R = Some (Inr (buf', R'))"
    and "\<And>l. find_session_by_socket s (sess R) = Some l \<Longrightarrow> owner S l = None"
  shows "alone pf api i (at i (R_find s) buf R S) (at i R_pop buf' R' S)"
proof (cases "find_session_by_socket s (sess R)")
  case None
  with assms(1) show ?thesis
    by (intro alone_step [OF _ alone_refl]) (auto simp: do_reads_def)
next
  case (Some l)
  let ?S = "S\<lparr>owner := (owner S)(l \<mapsto> i)\<rparr>"
  from assms(1) Some obtain k R1 where loop: "reads_loop pf api s l buf R = Some (Inr (k, buf', R1))"
    and R': "R' = (if k = SOCKET_ERROR then R1\<lparr>sess := remove_locked s (sess R1)\<rparr> else R1)"
    by (auto simp: do_reads_def split: option.splits sum.splits if_splits)
  from loop_alone [OF loop, of i l ?S]
  have k: "k \<le> 0" and mid: "alone pf api i (at i (R_turn s l l) buf R ?S) (at i (after_turn k s l l) buf' R1 ?S)"
    by simp_all
  have "alone pf api i (at i (R_find s) buf R S) (at i (R_turn s l l) buf R ?S)"
  proof (rule at_step [OF _ at_step [OF _ at_step [OF _ alone_refl]]])
    show "work pf api i (R_find s) (at i (R_find s) buf R S) = Some (at i (R_lock s l) buf R S)"
      using Some by simp
    show "work pf api i (R_lock s l) (at i (R_lock s l) buf R S) = Some (at i (R_recheck s l) buf R ?S)"
      using assms(2) [OF Some] by simp
    show "work pf api i (R_recheck s l) (at i (R_recheck s l) buf R ?S) =
        Some (at i (R_turn s l l) buf R ?S)" using Some by simp
  qed
  moreover have last: "alone pf api i (at i (R_unlock l) buf' R'' ?S) (at i R_pop buf' R'' S)" for R''
    by (rule at_step [OF _ alone_refl]) (simp add: owner_restored [of S, OF assms(2) [OF Some]])
  have "alone pf api i (at i (after_turn k s l l) buf' R1 ?S) (at i R_pop buf' R' S)"
  proof (cases "k = SOCKET_ERROR")
    case True
    show ?thesis
      by (rule alone_step [rotated, OF last]) (simp add: True after_turn_def R' SOCKET_ERROR_def)
  next
    case False
    then show ?thesis using k last [of R'] by (simp add: after_turn_def R')
  qed
  ultimately show ?thesis using mid by (blast intro: alone_trans)
qed

section \<open>The write handler\<close>

lemma writer_alone:
  assumes "\<And>l. find_session_by_socket s (sess R) = Some l \<Longrightarrow> owner S l = None"
  shows "alone pf api i (at i (W_find s m) buf R S) (at i W_pop buf (do_writes api (s, m) R) S)"
proof (cases "find_session_by_socket s (sess R)")
  case None
  then show ?thesis by (intro at_step [OF _ alone_refl]) (simp add: do_writes_def)
next
  case (Some l)
  let ?S = "S\<lparr>owner := (owner S)(l \<mapsto> i)\<rparr>"
  obtain k w where sd: "send_to_client api s m (world R) = (k, w)" by fastforce
  have "alone pf api i (at i (W_find s m) buf R S) (at i (W_send s m l) buf R ?S)"
  proof (rule at_step [OF _ at_step [OF _ alone_refl]])
    show "work pf api i (W_find s m) (at i (W_find s m) buf R S) = Some (at i (W_lock s m l) buf R S)"
      using Some by simp
    show "work pf api i (W_lock s m l) (at i (W_lock s m l) buf R S) = Some (at i (W_send s m l) buf R ?S)"
      using assms [OF Some] by simp
  qed
  moreover have last: "alone pf api i (at i (W_unlock l) buf R'' ?S) (at i W_pop buf R'' S)" for R''
    by (rule at_step [OF _ alone_refl]) (simp add: owner_restored [of S, OF assms [OF Some]])
  moreover have "alone pf api i (at i (W_send s m l) buf R ?S) (at i (W_unlock l) buf (do_writes api (s, m) R) ?S)"
  proof (cases "k = int (length m) \<or> k \<noteq> SOCKET_ERROR \<or> session_socket (sess R) l = None")
    case True
    then show ?thesis
      using Some sd by (intro at_step [OF _ alone_refl]) (auto simp: do_writes_def Let_def)
  next
    case False
    then obtain s' where s': "k \<noteq> int (length m)" "k = SOCKET_ERROR" "session_socket (sess R) l = Some s'"
      by auto
    have "alone pf api i (at i (W_remove s' l) buf (R\<lparr>world := w\<rparr>) ?S)
        (at i (W_unlock l) buf (do_writes api (s, m) R) ?S)"
      using s' Some sd by (intro at_step [OF _ alone_refl]) (simp add: do_writes_def Let_def)
    then show ?thesis by (rule at_step [rotated]) (use s' sd in simp)
  qed
  ultimately show ?thesis by (blast intro: alone_trans)
qed

section \<open>From a state in which the worker has its element\<close>

lemma reader_run:
  assumes "pcs S i = R_find s" and "do_reads pf api s (bufs S i) (rt S) = Some (Inr (buf', R'))"
    and "\<forall>l. find_session_by_socket s (sess (rt S)) = Some l \<longrightarrow> owner S l = None"
  shows "alone pf api i S (S\<lparr>rt := R', pcs := (pcs S)(i := R_pop), bufs := (bufs S)(i := buf')\<rparr>)"
proof -
  have "alone pf api i (at i (R_find s) (bufs S i) (rt S) S) (at i R_pop buf' R' S)"
    by (rule reader_alone [OF assms(2)]) (use assms(3) in blast)
  then show ?thesis
    using at_simps(11) [of i S] by (simp add: assms(1)) (simp add: at_def)
qed

lemma writer_run:
  assumes "pcs S i = W_find s m"
    and "\<forall>l. find_session_by_socket s (sess (rt S)) = Some l \<longrightarrow> owner S l = None"
  shows "alone pf api i S (S\<lparr>rt := do_writes api (s, m) (rt S), pcs := (pcs S)(i := W_pop)\<rparr>)"
proof -
  have "alone pf api i (at i (W_find s m) (bufs S i) (rt S) S)
      (at i W_pop (bufs S i) (do_writes api (s, m) (rt S)) S)"
    by (rule writer_alone) (use assms(2) in blast)
  then show ?thesis
    using at_simps(11) [of i S] by (simp add: assms(1)) (simp add: at_def)
qed

section \<open>The event loop\<close>

text \<open>The steps of the event loop from the top of its loop until it is there again.\<close>

definition listen ::
    "platform \<Rightarrow> ('w, 'f, 'x) server_api_scheme \<Rightarrow> sock \<Rightarrow> 'f \<Rightarrow> 'w threads \<Rightarrow> 'w threads \<Rightarrow> bool" where
  "listen pf api server fds = (\<lambda>S S'. event_step pf api server fds (mpc S) S = Some S')\<^sup>*\<^sup>*"

lemma listen_refl [intro]: "listen pf api server fds S S"
  by (simp add: listen_def)

lemma listen_step:
  "event_step pf api server fds (mpc S) S = Some S' \<Longrightarrow> listen pf api server fds S' S'' \<Longrightarrow>
   listen pf api server fds S S''"
  unfolding listen_def by (rule converse_rtranclp_into_rtranclp)

text \<open>The state of the event loop and of what it changes, set at once.\<close>

definition at_main :: "main_pc \<Rightarrow> 'w router \<Rightarrow> 'w threads \<Rightarrow> 'w threads" where
  "at_main p R S = S\<lparr>rt := R, mpc := p\<rparr>"

lemma at_main_simps [simp]:
  "rt (at_main p R S) = R" "mpc (at_main p R S) = p"
  "set_sess st (at_main p R S) = at_main p (R\<lparr>sess := st\<rparr>) S"
  "set_world w (at_main p R S) = at_main p (R\<lparr>world := w\<rparr>) S"
  "(at_main p R S)\<lparr>rt := R'\<rparr> = at_main p R' S" "(at_main p R S)\<lparr>mpc := p'\<rparr> = at_main p' R S"
  "at_main (mpc S) (rt S) S = S"
  by (simp_all add: at_main_def set_sess_def set_world_def)

lemma listen_push:
  "listen pf api server fds (at_main (M_push ready) R S)
     (at_main M_top (R\<lparr>read_queue := push_ready server ready (read_queue R)\<rparr>) S)"
proof (induction ready arbitrary: R)
  case Nil
  show ?case by (rule listen_step [OF _ listen_refl]) simp
next
  case (Cons s ss)
  let ?R = "if s \<noteq> server then R\<lparr>read_queue := push s True (read_queue R)\<rparr> else R"
  show ?case
    by (rule listen_step [of pf api server fds _ "at_main (M_push ss) ?R S"])
      (use Cons.IH [of ?R] in \<open>simp_all split: if_splits\<close>)
qed

lemma listener_alone:
  assumes "event_pass pf api server fds R = Inr (fds', R')"
  shows "listen pf api server fds (at_main M_top R S) (at_main M_top R' S)"
proof -
  obtain fds1 max_sd where fd: "reset_fd_set api fds server (get_accpeted_sockets (sess R)) = (fds1, max_sd)"
    by fastforce
  obtain act rfds w1 where sel: "api_select api (max_sd + 1) fds1 (world R) = (act, rfds, w1)"
    by (metis prod_cases3)
  let ?ready = "take (nat act) (api_fd_array api rfds)" and ?isset = "api_FD_ISSET api server rfds"
  note eq = assms [unfolded event_pass_def fd sel prod.case Let_def]
  show ?thesis
  proof (cases "act = SOCKET_ERROR")
    case True
    with eq show ?thesis by (intro listen_step [OF _ listen_refl]) (simp add: fd sel)
  next
    case False
    have "listen pf api server fds (at_main (M_ready ?ready ?isset) (R\<lparr>world := w1\<rparr>) S) (at_main M_top R' S)"
    proof (cases ?isset)
      case unset: False
      with eq False have "R' = R\<lparr>world := w1, read_queue := push_ready server ?ready (read_queue R)\<rparr>" by auto
      with listen_push [of pf api server fds ?ready "R\<lparr>world := w1\<rparr>" S]
      have "listen pf api server fds (at_main (M_push ?ready) (R\<lparr>world := w1\<rparr>) S) (at_main M_top R' S)" by simp
      then show ?thesis by (rule listen_step [rotated]) (use unset in simp)
    next
      case isset: True
      obtain c w2 where ac: "tcp_accept_client pf api server w1 = (c, w2)" by fastforce
      show ?thesis
      proof (cases "c = SOCKET_ERROR")
        case True
        with eq False isset ac show ?thesis by (intro listen_step [OF _ listen_refl]) simp
      next
        case c: False
        with eq False isset ac obtain st where st: "accept_client c (sess R) = Inr st"
          "R' = R\<lparr>world := w2, sess := st, read_queue := push_ready server ?ready (read_queue R)\<rparr>"
          by (auto split: sum.splits)
        have "listen pf api server fds (at_main (M_register c ?ready) (R\<lparr>world := w2\<rparr>) S) (at_main M_top R' S)"
          by (rule listen_step [of pf api server fds _ "at_main (M_push ?ready) (R\<lparr>world := w2, sess := st\<rparr>) S"])
            (use st listen_push [of pf api server fds ?ready "R\<lparr>world := w2, sess := st\<rparr>" S] in simp_all)
        then show ?thesis by (rule listen_step [rotated]) (use isset ac c in simp)
      qed
    qed
    then show ?thesis by (rule listen_step [rotated]) (use False fd sel in simp)
  qed
qed

lemma listener_run:
  assumes "mpc S = M_top" and "event_pass pf api server fds (rt S) = Inr (fds', R')"
  shows "listen pf api server fds S (S\<lparr>rt := R'\<rparr>)"
proof -
  have "at_main M_top (rt S) S = S" "at_main M_top R' S = S\<lparr>rt := R'\<rparr>"
    using assms(1) by (simp_all add: at_main_def)
  with listener_alone [OF assms(2), of S] show ?thesis by simp
qed

section \<open>Runs as schedules\<close>

lemma alone_thread_steps:
  assumes "alone pf api i S S'" and "i < unat THREAD_COUNT"
  shows "(thread_step pf api server)\<^sup>*\<^sup>* S S'"
  using assms(1) unfolding alone_def
  by induction (auto intro: rtranclp.rtrancl_into_rtrancl worker [OF assms(2)])

end
