(* ===== verification/Router_Arrivals.thy ===== *)
theory Router_Arrivals
  imports Router_Reads "HOL-Library.Sublist"
begin

text \<open>
  The read handler on a stream with any timing (\<open>timed_stream\<close>): bytes may arrive while the handler
  runs, and any call of \<^verbatim>\<open>recv\<close> may find nothing. What the handler does is then a sequence of
  turns, each of which takes the next bytes of the stream: a full identifier, a full message, or a
  piece that is too short and is dropped. The handler still returns, as long as the stream is
  finite.
\<close>

section \<open>Turns\<close>

text \<open>One turn at table \<open>t\<close> takes the bytes \<open>bs\<close>, leads to a table and to tasks for the write queue,
  and says whether the loop may go on.\<close>

inductive read_turn :: "sock \<Rightarrow> table \<Rightarrow> string \<Rightarrow> table \<Rightarrow> (sock \<times> string) list \<Rightarrow> bool \<Rightarrow> bool"
  for s t where
  short_piece: "length bs < frame_size t s \<Longrightarrow> read_turn s t bs t [] go"
| identified: "conns t s = Some NONE \<Longrightarrow> length f = 3 \<Longrightarrow>
    read_turn s t f (tbl_add s (parse_id f) t) [] True"
| routed: "conns t s \<noteq> Some NONE \<Longrightarrow> length f = 32 \<Longrightarrow> routes t (parse_id (drop 29 f)) = Some d \<Longrightarrow>
    read_turn s t f t [(d, f)] True"
| unrouted: "conns t s \<noteq> Some NONE \<Longrightarrow> length f = 32 \<Longrightarrow> routes t (parse_id (drop 29 f)) = None \<Longrightarrow>
    read_turn s t f t [] False"

inductive read_turns ::
    "sock \<Rightarrow> string \<Rightarrow> table \<Rightarrow> table \<Rightarrow> (sock \<times> string) list \<Rightarrow> string \<Rightarrow> bool"
  for s where
  last_turn: "read_turn s t bs t' out False \<Longrightarrow> read_turns s (bs @ p) t t' out p"
| next_turn: "read_turn s t bs t1 out True \<Longrightarrow> read_turns s p t1 t' out' rest \<Longrightarrow>
    read_turns s (bs @ p) t t' (out @ out') rest"

inductive_cases read_turnE: "read_turn s t bs t' out go"

text \<open>The forwarded messages are pieces of the stream, in its order and without overlap, and each
  goes to the socket that its destination had when it was read.\<close>

lemma read_turns_pieces:
  "read_turns s p t t' out rest \<Longrightarrow>
   \<exists>pieces. p = concat pieces @ rest \<and> subseq (map snd out) pieces \<and> (\<forall>f\<in>set (map snd out). length f = 32)"
proof (induction rule: read_turns.induct)
  case (last_turn t bs t' out p)
  then show ?case by (intro exI [of _ "[bs]"]) (auto elim!: read_turnE)
next
  case (next_turn t bs t1 out p t' out' rest)
  then obtain pieces where IH: "p = concat pieces @ rest" "subseq (map snd out') pieces"
    "\<forall>f\<in>set (map snd out'). length f = 32" by blast
  from next_turn.hyps(1) have "map snd out = [] \<or> map snd out = [bs] \<and> length bs = 32"
    by (auto elim: read_turnE)
  with IH show ?case by (intro exI [of _ "bs # pieces"]) auto
qed

text \<open>The table changes only at the socket that is read and at identifiers below the limit.\<close>

lemma read_turns_table:
  "read_turns s p t t' out rest \<Longrightarrow>
   (\<forall>u. u \<noteq> s \<longrightarrow> conns t' u = conns t u) \<and> (\<forall>i. routes t' i = routes t i \<or> routes t' i = Some s)"
proof (induction rule: read_turns.induct)
  case (next_turn t bs t1 out p t' out' rest)
  from next_turn.hyps(1) have "t1 = t \<or> t1 = tbl_add s (parse_id bs) t" by (auto elim: read_turnE)
  then have "(\<forall>u. u \<noteq> s \<longrightarrow> conns t1 u = conns t u) \<and> (\<forall>i. routes t1 i = routes t i \<or> routes t1 i = Some s)"
    by (cases "s \<in> dom (conns t) \<and> parse_id bs < MAX_CLIENTS_COUNT") (auto simp: tbl_add_def)
  with next_turn.IH show ?case by metis
qed (auto elim: read_turnE)

section \<open>Reading with any timing\<close>

context timed_stream
begin

lemma read_loop_timed:
  assumes "got < n" and "n \<le> length buf"
  shows "\<exists>r bs rest w'. read_loop pf api s n got buf w = Some (r, overwrite buf got bs, w') \<and>
    future w s = bs @ rest \<and> future w' = (future w)(s := rest) \<and>
    (got + length bs = n \<and> r = int n \<or>
     got + length bs < n \<and> (r = int (got + length bs) \<or> r = SOCKET_ERROR))"
  using assms
proof (induction "n - got" arbitrary: got buf w rule: less_induct)
  case less
  obtain k bs w1 where rc: "api_recv api s (n - got) w = (k, bs, w1)" by (metis prod_cases3)
  obtain rest where f: "future w s = bs @ rest" "future w1 = (future w)(s := rest)"
    using recv_future [OF _ rc] less.prems(1) by auto
  consider (more) "0 < k" "length bs = nat k" "got + nat k < n"
    | (full) "0 < k" "length bs = nat k" "got + nat k = n" | (none) "k \<le> 0" "bs = []"
    using recv_result [OF rc] less.prems(1) by (cases "0 < k") (force simp: SOCKET_ERROR_def)+
  then show ?case
  proof cases
    case more
    then have lt: "n - (got + nat k) < n - got" by linarith
    let ?buf = "overwrite buf got bs"
    have len: "n \<le> length ?buf" using more less.prems by simp
    from less.hyps [OF lt more(3) len, of w1] obtain r bs' rest' w' where rec:
      "read_loop pf api s n (got + nat k) ?buf w1 = Some (r, overwrite ?buf (got + nat k) bs', w')"
      "rest = bs' @ rest'" "future w' = (future w1)(s := rest')"
      "got + nat k + length bs' = n \<and> r = int n \<or>
       got + nat k + length bs' < n \<and> (r = int (got + nat k + length bs') \<or> r = SOCKET_ERROR)"
      using f by auto
    have "overwrite ?buf (got + nat k) bs' = overwrite buf got (bs @ bs')"
      using overwrite_overwrite [of got buf bs bs'] more rec(4) less.prems by auto
    moreover have "read_loop pf api s n got buf w = read_loop pf api s n (got + nat k) ?buf w1"
      using more rc by (subst read_loop.simps) (simp add: Let_def)
    ultimately show ?thesis
      using rec f more by (intro exI [of _ r] exI [of _ "bs @ bs'"] exI [of _ rest'] exI [of _ w']) auto
  next
    case full
    then show ?thesis
      using rc f by (subst read_loop.simps) (auto simp: Let_def)
  next
    case none
    then have "read_loop pf api s n got buf w =
        Some (if k = SOCKET_ERROR \<and> no_more_data pf api w1 then int got else SOCKET_ERROR, buf, w1)"
      using rc by (subst read_loop.simps) (simp add: Let_def)
    then show ?thesis
      using none f less.prems(1)
      by (intro exI [of _ "if k = SOCKET_ERROR \<and> no_more_data pf api w1 then int got else SOCKET_ERROR"]
          exI [of _ "[]"] exI [of _ rest] exI [of _ w1]) auto
  qed
qed

lemma read_async_timed:
  assumes "0 < n" and "n \<le> length buf"
  shows "\<exists>r bs rest w'. read_async pf api s buf n w = Some (r, overwrite buf 0 bs, w') \<and>
    future w s = bs @ rest \<and> future w' = (future w)(s := rest) \<and>
    (length bs = n \<and> r = int n \<or> length bs < n \<and> (r = int (length bs) \<or> r = SOCKET_ERROR))"
  using read_loop_timed [of 0 n buf pf s w] assms by (simp add: read_async_def)

text \<open>The two branches of a turn. The status of the connections plays no part here.\<close>

abbreviation "kept s r buf R buf' R' \<equiv> reading future (\<lambda>_ _. Open) s r buf R buf' R'"

definition turn_done ::
    "sock \<Rightarrow> ref \<Rightarrow> buffer \<Rightarrow> 'w router \<Rightarrow> int \<Rightarrow> buffer \<Rightarrow> 'w router \<Rightarrow> bool" where
  "turn_done s r buf R k buf' R' \<longleftrightarrow> kept s r buf R buf' R' \<and>
     (\<exists>bs out. future (world R) s = bs @ future (world R') s \<and>
        read_turn s (table_of (sess R)) bs (table_of (sess R')) out (0 < k) \<and> (0 < k \<longrightarrow> bs \<noteq> []) \<and>
        m_queue (write_queue R') = m_queue (write_queue R) @ out)"

lemma turn_doneI:
  assumes "kept s r buf R buf' R'" and "future (world R) s = bs @ future (world R') s"
    and "read_turn s (table_of (sess R)) bs (table_of (sess R')) out (0 < k)" and "0 < k \<Longrightarrow> bs \<noteq> []"
    and "m_queue (write_queue R') = m_queue (write_queue R) @ out"
  shows "turn_done s r buf R k buf' R'"
  using assms unfolding turn_done_def by blast

lemma handshake_timed:
  assumes inv: "sessions_inv (sess R)" and r: "sessions_by_socket (sess R) s = Some r"
    and none: "session_id (sess R) r = NONE" and len: "32 < length buf"
  shows "\<exists>k buf' R'. handle_handshake pf api s buf R = Some (Inr (k, buf', R')) \<and>
    turn_done s r buf R k buf' R'"
proof -
  have c: "conns (table_of (sess R)) s = Some NONE" using frame_size_session [OF inv r] none by simp
  obtain k bs rest w' where ra: "read_async pf api s buf 3 (world R) = Some (k, overwrite buf 0 bs, w')"
    and f: "future (world R) s = bs @ rest" "future w' = (future (world R))(s := rest)"
    and k: "length bs = 3 \<and> k = int 3 \<or> length bs < 3 \<and> (k = int (length bs) \<or> k = SOCKET_ERROR)"
    using read_async_timed [of 3 buf pf s "world R"] len by (auto simp del: of_nat_numeral)
  show ?thesis
  proof (cases "length bs = 3")
    case True
    let ?st = "add_node s (parse_id bs) (sess R)"
    let ?R' = "R\<lparr>world := w', sess := ?st\<rparr>"
    have b: "(overwrite buf 0 bs)[3 := NUL] = bs @ NUL # drop 4 buf"
      using terminated_buffer [of bs 3 buf] True len by simp
    have "sessions_inv ?st" using inv none r by (intro add_node_inv) auto
    moreover have "sessions_by_socket ?st s = Some r" using r by (simp add: add_node_def)
    ultimately have "turn_done s r buf R 3 (bs @ NUL # drop 4 buf) ?R'"
      using f True len identified [OF c True] add_node_table [OF inv, of s "parse_id bs"]
      by (intro turn_doneI [of _ _ _ _ _ _ bs "[]"]) (auto simp: reading_def)
    moreover have "handle_handshake pf api s buf R = Some (Inr (3, bs @ NUL # drop 4 buf, ?R'))"
      using ra True k b by (simp add: handle_handshake_def ID_MESSAGE_SIZE_def extract_src_id_parse)
    ultimately show ?thesis by blast
  next
    case False
    let ?R' = "R\<lparr>world := w'\<rparr>"
    have "read_turn s (table_of (sess R)) bs (table_of (sess R)) [] go" for go
      using False k c by (intro short_piece) (auto simp: frame_size_def)
    then have "turn_done s r buf R k (overwrite buf 0 bs) ?R'"
      using f False k len inv r
      by (intro turn_doneI [of _ _ _ _ _ _ bs "[]"]) (auto simp: reading_def SOCKET_ERROR_def)
    moreover have "handle_handshake pf api s buf R = Some (Inr (k, overwrite buf 0 bs, ?R'))"
      using ra False k by (auto simp: handle_handshake_def ID_MESSAGE_SIZE_def SOCKET_ERROR_def)
    ultimately show ?thesis by blast
  qed
qed

lemma message_timed:
  assumes inv: "sessions_inv (sess R)" and r: "sessions_by_socket (sess R) s = Some r"
    and id: "session_id (sess R) r \<noteq> NONE" and len: "32 < length buf"
  shows "\<exists>k buf' R'. process_message pf api s buf R = Some (Inr (k, buf', R')) \<and>
    turn_done s r buf R k buf' R'"
proof -
  have c: "conns (table_of (sess R)) s \<noteq> Some NONE" using frame_size_session [OF inv r] id by simp
  obtain k bs rest w' where ra: "read_async pf api s buf 32 (world R) = Some (k, overwrite buf 0 bs, w')"
    and f: "future (world R) s = bs @ rest" "future w' = (future (world R))(s := rest)"
    and k: "length bs = 32 \<and> k = int 32 \<or> length bs < 32 \<and> (k = int (length bs) \<or> k = SOCKET_ERROR)"
    using read_async_timed [of 32 buf pf s "world R"] len by (auto simp del: of_nat_numeral)
  let ?R1 = "R\<lparr>world := w'\<rparr>"
  show ?thesis
  proof (cases "length bs = 32")
    case full: True
    let ?buf = "bs @ NUL # drop 33 buf"
    let ?i = "parse_id (drop 29 bs)"
    have b: "(overwrite buf 0 bs)[32 := NUL] = ?buf"
      using terminated_buffer [of bs 32 buf] full len by simp
    have x: "extract_dst_id ?buf 32 = Inr ?i" using full by (simp add: extract_dst_id_parse)
    show ?thesis
    proof (cases "find_session_by_id ?i (sess R)")
      case None
      then have "routes (table_of (sess R)) ?i = None" by (simp add: find_by_id_routes(1) [OF inv])
      from unrouted [OF c full this] have "turn_done s r buf R 0 ?buf ?R1"
        using f full len inv r by (intro turn_doneI [of _ _ _ _ _ _ bs "[]"]) (auto simp: reading_def)
      moreover have "process_message pf api s buf R = Some (Inr (0, ?buf, ?R1))"
        using ra full k b x None by (simp add: process_message_def DATA_MESSAGE_SIZE_def)
      ultimately show ?thesis by blast
    next
      case (Some d)
      then obtain y where y: "routes (table_of (sess R)) ?i = Some y" "session_socket (sess R) d = Some y"
        using find_by_id_routes [OF inv] by (metis option.exhaust option.distinct(1))
      note fw = forward_queue [of ?R1 d y bs]
      have "turn_done s r buf R 32 ?buf (forward d bs ?R1)"
        using f full len inv r fw y routed [OF c full y(1)]
        by (intro turn_doneI [of _ _ _ _ _ _ bs "[(y, bs)]"]) (auto simp: reading_def)
      moreover have "process_message pf api s buf R = Some (Inr (32, ?buf, forward d bs ?R1))"
        using ra full k b x Some by (simp add: process_message_def DATA_MESSAGE_SIZE_def Let_def)
      ultimately show ?thesis by blast
    qed
  next
    case False
    have "read_turn s (table_of (sess R)) bs (table_of (sess R)) [] go" for go
      using False k c by (intro short_piece) (auto simp: frame_size_def)
    then have "turn_done s r buf R k (overwrite buf 0 bs) ?R1"
      using f False k len inv r
      by (intro turn_doneI [of _ _ _ _ _ _ bs "[]"]) (auto simp: reading_def SOCKET_ERROR_def)
    moreover have "process_message pf api s buf R = Some (Inr (k, overwrite buf 0 bs, ?R1))"
      using ra False k by (auto simp: process_message_def DATA_MESSAGE_SIZE_def SOCKET_ERROR_def)
    ultimately show ?thesis by blast
  qed
qed

lemma loop_timed:
  assumes "sessions_inv (sess R)" and "sessions_by_socket (sess R) s = Some r" and "32 < length buf"
  shows "\<exists>k buf' R' out. reads_loop pf api s r buf R = Some (Inr (k, buf', R')) \<and>
    kept s r buf R buf' R' \<and> m_queue (write_queue R') = m_queue (write_queue R) @ out \<and>
    read_turns s (future (world R) s) (table_of (sess R)) (table_of (sess R')) out (future (world R') s)"
  using assms
proof (induction "length (future (world R) s)" arbitrary: R buf rule: less_induct)
  case less
  let ?turn = "if session_id (sess R) r = NONE then handle_handshake pf api s buf R
    else process_message pf api s buf R"
  obtain k buf1 R1 where t: "?turn = Some (Inr (k, buf1, R1))" and d: "turn_done s r buf R k buf1 R1"
    using handshake_timed [OF less.prems(1,2) _ less.prems(3), of pf]
      message_timed [OF less.prems(1,2) _ less.prems(3), of pf] by (cases "session_id (sess R) r = NONE") auto
  from d obtain bs out where kp: "kept s r buf R buf1 R1" and f: "future (world R) s = bs @ future (world R1) s"
    and rt: "read_turn s (table_of (sess R)) bs (table_of (sess R1)) out (0 < k)" and ne: "0 < k \<Longrightarrow> bs \<noteq> []"
    and q: "m_queue (write_queue R1) = m_queue (write_queue R) @ out" unfolding turn_done_def by blast
  show ?case
  proof (cases "0 < k")
    case True
    have "sessions_inv (sess R1)" "sessions_by_socket (sess R1) s = Some r" "32 < length buf1"
      "length (future (world R1) s) < length (future (world R) s)"
      using kp f ne [OF True] less.prems(3) by (auto simp: reading_def)
    from less.hyps [OF this(4) this(1-3)] obtain k' buf' R' out' where
      IH: "reads_loop pf api s r buf1 R1 = Some (Inr (k', buf', R'))" "kept s r buf1 R1 buf' R'"
        "m_queue (write_queue R') = m_queue (write_queue R1) @ out'"
        "read_turns s (future (world R1) s) (table_of (sess R1)) (table_of (sess R')) out' (future (world R') s)"
      by blast
    have "reads_loop pf api s r buf R = Some (Inr (k', buf', R'))"
      using reads_loop_step [OF t] True IH(1) by simp
    moreover have "kept s r buf R buf' R'" using reading_trans [OF kp IH(2)] .
    moreover have "read_turns s (future (world R) s) (table_of (sess R)) (table_of (sess R')) (out @ out')
        (future (world R') s)"
      unfolding f using next_turn [of s "table_of (sess R)" bs "table_of (sess R1)" out] rt True IH(4) by simp
    ultimately show ?thesis using IH(3) q by (metis append.assoc)
  next
    case False
    then have "reads_loop pf api s r buf R = Some (Inr (k, buf1, R1))" using reads_loop_step [OF t] by simp
    moreover have "read_turns s (future (world R) s) (table_of (sess R)) (table_of (sess R1)) out (future (world R1) s)"
      unfolding f using last_turn [of s "table_of (sess R)" bs "table_of (sess R1)" out] rt False by simp
    ultimately show ?thesis using kp q by blast
  qed
qed

lemma do_reads_timed:
  assumes inv: "sessions_inv (sess R)" and r: "sessions_by_socket (sess R) s = Some r"
    and len: "32 < length buf"
  shows "\<exists>buf' R' t' out. do_reads pf api s buf R = Some (Inr (buf', R')) \<and> sessions_inv (sess R') \<and>
    length buf' = length buf \<and> read_queue R' = read_queue R \<and>
    read_turns s (future (world R) s) (table_of (sess R)) t' out (future (world R') s) \<and>
    (table_of (sess R') = t' \<or> table_of (sess R') = tbl_remove s t') \<and>
    m_queue (write_queue R') = m_queue (write_queue R) @ out \<and>
    (\<forall>u. u \<noteq> s \<longrightarrow> future (world R') u = future (world R) u)"
proof -
  obtain k buf' R1 out where l: "reads_loop pf api s r buf R = Some (Inr (k, buf', R1))"
    "kept s r buf R buf' R1" "m_queue (write_queue R1) = m_queue (write_queue R) @ out"
    "read_turns s (future (world R) s) (table_of (sess R)) (table_of (sess R1)) out (future (world R1) s)"
    using loop_timed [OF inv r len] by blast
  define R' where "R' = (if k = SOCKET_ERROR then R1\<lparr>sess := remove_locked s (sess R1)\<rparr> else R1)"
  have "do_reads pf api s buf R = Some (Inr (buf', R'))"
    using r l(1) by (simp add: do_reads_def find_session_by_socket_def R'_def)
  moreover have "sessions_inv (sess R')" "table_of (sess R') = table_of (sess R1) \<or>
      table_of (sess R') = tbl_remove s (table_of (sess R1))"
    using l(2) by (auto simp: R'_def reading_def remove_locked_inv remove_locked_table)
  moreover have "world R' = world R1" "write_queue R' = write_queue R1" "read_queue R' = read_queue R"
    "length buf' = length buf" "\<forall>u. u \<noteq> s \<longrightarrow> future (world R') u = future (world R) u"
    using l(2) by (auto simp: R'_def reading_def)
  ultimately show ?thesis using l(3,4) by (intro exI [of _ buf'] exI [of _ R'] exI) auto
qed

end

end
