(* ===== verification/Thread_Rest.thy ===== *)
theory Thread_Rest
  imports Thread_Handlers Router_Arrivals Script_Net
begin

text \<open>
  The workers come to rest. On streams that end, every step of a worker takes something off the
  work that is left: bytes to be received, elements of the queues, and steps inside a handler.
  So the workers take only finitely many steps between two steps of the event loop, in any
  schedule, and when none of them can go on, all work has been done.
\<close>

section \<open>Steps of the workers\<close>

definition worker_step ::
    "platform \<Rightarrow> ('w, 'x) sock_api_scheme \<Rightarrow> 'w threads \<Rightarrow> 'w threads \<Rightarrow> bool" where
  "worker_step pf api S S' \<longleftrightarrow> (\<exists>i<unat THREAD_COUNT. work pf api i (pcs S i) S = Some S')"

text \<open>All workers wait at their queues, which are empty, and no mutex is taken.\<close>

definition at_rest :: "'w threads \<Rightarrow> bool" where
  "at_rest S \<longleftrightarrow>
     (\<forall>i. pcs S i = (if i < read_thread_count THREAD_COUNT then R_pop else W_pop)) \<and>
     m_queue (read_queue (rt S)) = [] \<and> m_queue (write_queue (rt S)) = [] \<and> owner S = Map.empty"

section \<open>Readers and writers\<close>

fun write_pc :: "pc \<Rightarrow> bool" where
  "write_pc W_pop \<longleftrightarrow> True"
| "write_pc (W_find s m) \<longleftrightarrow> True"
| "write_pc (W_lock s m l) \<longleftrightarrow> True"
| "write_pc (W_send s m l) \<longleftrightarrow> True"
| "write_pc (W_remove s l) \<longleftrightarrow> True"
| "write_pc (W_unlock l) \<longleftrightarrow> True"
| "write_pc _ \<longleftrightarrow> False"

definition roles :: "'w threads \<Rightarrow> bool" where
  "roles S \<longleftrightarrow> (\<forall>i. write_pc (pcs S i) \<longleftrightarrow> read_thread_count THREAD_COUNT \<le> i) \<and>
     (\<forall>i\<ge>unat THREAD_COUNT. pcs S i = W_pop)"

lemma write_pc_after_turn [simp]: "\<not> write_pc (after_turn k s l r)"
  by (simp add: after_turn_def)

lemma goto_fields [simp]: "pcs (goto i p S) = (pcs S)(i := p)" "rt (goto i p S) = rt S"
  by (simp_all add: goto_def)

lemma work_pcs:
  assumes "work pf api i p S = Some S'"
  shows "\<exists>p'. pcs S' = (pcs S)(i := p') \<and> write_pc p' = write_pc p"
  using assms
  by (cases p)
    (auto simp: shake_step_def msg_step_def Let_def split: option.splits prod.splits if_splits sum.splits)

lemma event_pcs: "event_step pf api server fds m S = Some S' \<Longrightarrow> pcs S' = pcs S"
  by (cases "(pf, api, server, fds, m, S)" rule: event_step.cases)
    (auto split: prod.splits if_splits sum.splits)

lemma roles_work:
  assumes "roles S" and "work pf api i (pcs S i) S = Some S'" and "i < unat THREAD_COUNT"
  shows "roles S'"
  using work_pcs [OF assms(2)] assms(1,3) by (auto simp: roles_def split: if_splits)

lemma roles_reach: "thread_reach pf api server w S \<Longrightarrow> roles S"
proof (induction rule: thread_reach.induct)
  case initial
  show ?case by (simp add: roles_def threads0_def read_thread_count_def THREAD_COUNT_def)
next
  case (later S S')
  from later.hyps(2) show ?case
  proof (cases rule: thread_step.cases)
    case (worker i)
    with later.IH show ?thesis by (blast intro: roles_work)
  next
    case (listener fds)
    from event_pcs [OF this] later.IH show ?thesis by (simp add: roles_def)
  qed
qed

section \<open>The work that is left\<close>

text \<open>
  The weights: ten for every byte that a reader or an element of the read queue can still lead
  to, and for each program counter more than for those that follow it, including the element it
  may put into the write queue.
\<close>

fun cost :: "(sock \<Rightarrow> string) \<Rightarrow> pc \<Rightarrow> nat" where
  "cost f R_pop = 0"
| "cost f (R_find s) = 10 * length (f s) + 7"
| "cost f (R_lock s l) = 10 * length (f s) + 6"
| "cost f (R_recheck s l) = 10 * length (f s) + 5"
| "cost f (R_turn s l r) = 10 * length (f s) + 4"
| "cost f (R_shake s l r) = 10 * length (f s) + 3"
| "cost f (R_add s l r v) = 10 * length (f s) + 5"
| "cost f (R_msg s l r) = 10 * length (f s) + 3"
| "cost f (R_route s l r m v) = 10 * length (f s) + 12"
| "cost f (R_push s l r m d) = 10 * length (f s) + 11"
| "cost f (R_remove s l) = 2"
| "cost f (R_unlock l) = 1"
| "cost f W_pop = 0"
| "cost f (W_find s m) = 5"
| "cost f (W_lock s m l) = 4"
| "cost f (W_send s m l) = 3"
| "cost f (W_remove s l) = 2"
| "cost f (W_unlock l) = 1"
| "cost f (Thrown e) = 0"

definition queue_cost :: "(sock \<Rightarrow> string) \<Rightarrow> 'w router \<Rightarrow> nat" where
  "queue_cost f R =
     (\<Sum>s\<leftarrow>m_queue (read_queue R). 10 * length (f s) + 8) + 6 * length (m_queue (write_queue R))"

definition work_left :: "('w \<Rightarrow> sock \<Rightarrow> string) \<Rightarrow> 'w threads \<Rightarrow> nat" where
  "work_left future S = (\<Sum>i<unat THREAD_COUNT. cost (future (world (rt S))) (pcs S i)) +
     queue_cost (future (world (rt S))) (rt S)"

definition shrinks :: "(sock \<Rightarrow> string) \<Rightarrow> (sock \<Rightarrow> string) \<Rightarrow> bool" where
  "shrinks f f' \<longleftrightarrow> (\<forall>s. length (f' s) \<le> length (f s))"

lemma shrinks_refl [simp]: "shrinks f f"
  by (simp add: shrinks_def)

lemma cost_shrinks: "shrinks f f' \<Longrightarrow> cost f' p \<le> cost f p"
  by (cases p) (simp_all add: shrinks_def)

lemma queue_cost_shrinks: "shrinks f f' \<Longrightarrow> queue_cost f' R \<le> queue_cost f R"
  by (simp add: queue_cost_def shrinks_def sum_list_mono add_mono)

lemma work_left_less:
  assumes "i < unat THREAD_COUNT" and "pcs S' = (pcs S)(i := p)"
    and "shrinks (future (world (rt S))) (future (world (rt S')))"
    and "cost (future (world (rt S'))) p + queue_cost (future (world (rt S'))) (rt S') <
      cost (future (world (rt S))) (pcs S i) + queue_cost (future (world (rt S))) (rt S)"
  shows "work_left future S' < work_left future S"
proof -
  let ?f = "future (world (rt S))" and ?f' = "future (world (rt S'))" and ?I = "{..<unat THREAD_COUNT}"
  have split: "(\<Sum>j\<in>?I. g j) = g i + (\<Sum>j\<in>?I - {i}. g j)" for g :: "nat \<Rightarrow> nat"
    using assms(1) by (intro sum.remove) simp_all
  have "(\<Sum>j\<in>?I - {i}. cost ?f' (pcs S' j)) \<le> (\<Sum>j\<in>?I - {i}. cost ?f (pcs S j))"
    using assms(2) by (intro sum_mono) (simp add: cost_shrinks [OF assms(3)])
  with assms(2,4) show ?thesis by (simp add: work_left_def split)
qed

lemma try_pop_queue: "try_pop q = Some (x, q') \<Longrightarrow> m_queue q = x # m_queue q'"
  by (auto simp: try_pop_def split: list.splits)

section \<open>Every step takes something off\<close>

locale timed_os = router_os api opened + timed_stream api future
  for api :: "('w, 'f, 'x) server_api_scheme" and opened and future +
  assumes send_future: "api_send api s m w = (r, w') \<Longrightarrow> future w' = future w"
begin

lemma read_async_left:
  assumes "read_async pf api s buf n w = Some (k, buf', w')" and "0 < n" and "n \<le> length buf"
  shows "shrinks (future w) (future w')" and "0 < k \<Longrightarrow> length (future w' s) < length (future w s)"
  using read_async_timed [OF assms(2,3), of pf s w] assms(1,2) by (auto simp: shrinks_def SOCKET_ERROR_def)

lemma read_step_less:
  assumes i: "i < unat THREAD_COUNT" and inv: "threads_inv opened S"
    and pc: "pcs S i = R_shake s l r \<or> pcs S i = R_msg s l r"
    and rd: "read_async pf api s (bufs S i) n (world (rt S)) = Some (k, buf, w)" and n: "0 < n" "n \<le> 32"
    and S': "pcs S' = (pcs S)(i := p)" "rt S' = (rt S)\<lparr>world := w\<rparr>"
    and p: "p = after_turn k s l r \<or> 0 < k \<and> cost (future w) p \<le> 10 * length (future w s) + 12"
  shows "work_left future S' < work_left future S"
proof -
  have "n \<le> length (bufs S i)" using inv n(2) by (simp add: threads_inv_def RECV_BUFF_SIZE_def)
  note left = read_async_left [OF rd n(1) this]
  have "cost (future w) p < cost (future (world (rt S))) (pcs S i)"
    using p pc left(2) by (cases "0 < k") (auto simp: after_turn_def)
  moreover have "queue_cost (future w) ((rt S)\<lparr>world := w\<rparr>) \<le> queue_cost (future (world (rt S))) (rt S)"
    using queue_cost_shrinks [OF left(1), of "rt S"] by (simp add: queue_cost_def)
  ultimately show ?thesis using left(1) S' by (intro work_left_less [OF i S'(1)]) simp_all
qed

lemma shake_less:
  assumes "i < unat THREAD_COUNT" and "threads_inv opened S" and pc: "pcs S i = R_shake s l r"
    and st: "shake_step pf api i s l r S = Some S'"
  shows "work_left future S' < work_left future S"
proof -
  obtain k buf w where rd: "read_async pf api s (bufs S i) 3 (world (rt S)) = Some (k, buf, w)"
    using st by (auto simp: shake_step_def ID_MESSAGE_SIZE_def split: option.splits)
  have "pcs S' = (pcs S)(i := pcs S' i)" "rt S' = (rt S)\<lparr>world := w\<rparr>"
    "pcs S' i = after_turn k s l r \<or> 0 < k \<and> cost (future w) (pcs S' i) \<le> 10 * length (future w s) + 12"
    using st rd by (auto simp: shake_step_def ID_MESSAGE_SIZE_def Let_def set_world_def
        split: if_splits sum.splits)
  from read_step_less [OF assms(1,2) disjI1 [OF pc] rd _ _ this] show ?thesis by simp
qed

lemma msg_less:
  assumes "i < unat THREAD_COUNT" and "threads_inv opened S" and pc: "pcs S i = R_msg s l r"
    and st: "msg_step pf api i s l r S = Some S'"
  shows "work_left future S' < work_left future S"
proof -
  obtain k buf w where rd: "read_async pf api s (bufs S i) 32 (world (rt S)) = Some (k, buf, w)"
    using st by (auto simp: msg_step_def DATA_MESSAGE_SIZE_def split: option.splits)
  have "pcs S' = (pcs S)(i := pcs S' i)" "rt S' = (rt S)\<lparr>world := w\<rparr>"
    "pcs S' i = after_turn k s l r \<or> 0 < k \<and> cost (future w) (pcs S' i) \<le> 10 * length (future w s) + 12"
    using st rd by (auto simp: msg_step_def DATA_MESSAGE_SIZE_def Let_def set_world_def
        split: if_splits sum.splits)
  from read_step_less [OF assms(1,2) disjI2 [OF pc] rd _ _ this] show ?thesis by simp
qed

text \<open>The other steps change the tables, the queues, the mutexes or nothing but the program counter.\<close>

lemma step_less:
  assumes "i < unat THREAD_COUNT" and "pcs S' = (pcs S)(i := p)"
    and "future (world (rt S')) = future (world (rt S))"
    and "cost (future (world (rt S))) p + queue_cost (future (world (rt S))) (rt S') <
      cost (future (world (rt S))) (pcs S i) + queue_cost (future (world (rt S))) (rt S)"
  shows "work_left future S' < work_left future S"
  using assms by (intro work_left_less [OF assms(1,2)]) simp_all

lemma send_less:
  assumes i: "i < unat THREAD_COUNT" and pc: "pcs S i = W_send s m l"
    and st: "work pf api i (W_send s m l) S = Some S'"
  shows "work_left future S' < work_left future S"
proof -
  obtain k w where sd: "send_to_client api s m (world (rt S)) = (k, w)" by fastforce
  then have "future w = future (world (rt S))"
    by (auto simp: send_to_client_def split: prod.splits if_splits dest: send_future)
  moreover have "pcs S' = (pcs S)(i := pcs S' i)" "rt S' = (rt S)\<lparr>world := w\<rparr>" "cost f (pcs S' i) < 3" for f
    using st sd by (auto simp: set_world_def split: if_splits option.splits)
  ultimately show ?thesis using pc by (intro step_less [OF i]) (simp_all add: queue_cost_def)
qed

lemma forward_less:
  assumes i: "i < unat THREAD_COUNT" and pc: "pcs S i = R_push s l r m d"
  shows "work_left future (goto i (R_turn s l r) (S\<lparr>rt := forward d m (rt S)\<rparr>)) < work_left future S"
  using pc by (intro step_less [OF i, of _ _ "R_turn s l r"])
    (auto simp: goto_def forward_def queue_cost_def m_queue_push split: option.splits)

lemma work_less:
  assumes i: "i < unat THREAD_COUNT" and inv: "threads_inv opened S"
    and st: "work pf api i (pcs S i) S = Some S'"
  shows "work_left future S' < work_left future S"
proof (cases "pcs S i")
  case R_pop
  then obtain s q where "try_pop (read_queue (rt S)) = Some (s, q)"
    "S' = goto i (R_find s) (S\<lparr>rt := (rt S)\<lparr>read_queue := q\<rparr>\<rparr>)"
    using st by (auto split: option.splits)
  with R_pop try_pop_queue [OF this(1)] show ?thesis by (intro step_less [OF i, of _ _ "R_find s"]) (simp_all add: queue_cost_def goto_def)
next
  case W_pop
  then obtain t q where "try_pop (write_queue (rt S)) = Some (t, q)"
    "S' = goto i (W_find (fst t) (snd t)) (S\<lparr>rt := (rt S)\<lparr>write_queue := q\<rparr>\<rparr>)"
    using st by (auto split: option.splits)
  with W_pop try_pop_queue [OF this(1)] show ?thesis
    by (intro step_less [OF i, of _ _ "W_find (fst t) (snd t)"]) (simp_all add: queue_cost_def goto_def)
next
  case (R_shake s l r)
  with st show ?thesis by (simp add: shake_less [OF i inv])
next
  case (R_msg s l r)
  with st show ?thesis by (simp add: msg_less [OF i inv])
next
  case (W_send s m l)
  from send_less [OF i this] st this show ?thesis by simp
next
  case (R_push s l r m d)
  from forward_less [OF i this] st this show ?thesis by simp
qed (use st in \<open>auto split: option.splits if_splits
    intro!: step_less [OF i] simp: goto_def set_sess_def after_turn_def SOCKET_ERROR_def queue_cost_def\<close>)

section \<open>Runs of the workers\<close>

lemma run_bound:
  assumes "threads_inv opened S" and "roles S" and "(worker_step pf api ^^ n) S S'"
  shows "threads_inv opened S' \<and> roles S' \<and> n + work_left future S' \<le> work_left future S"
  using assms(3)
proof (induction n arbitrary: S')
  case 0
  with assms(1,2) show ?case by simp
next
  case (Suc n)
  then obtain S1 where S1: "(worker_step pf api ^^ n) S S1" "worker_step pf api S1 S'" by auto
  then obtain i where i: "i < unat THREAD_COUNT" "work pf api i (pcs S1 i) S1 = Some S'"
    by (auto simp: worker_step_def)
  note IH = Suc.IH [OF S1(1)]
  with work_less [OF i(1) _ i(2)] inv_work [OF _ i(2)] roles_work [OF _ i(2,1)] show ?case by force
qed

lemma stuck_at_rest:
  assumes inv: "threads_inv opened S" and roles: "roles S" and stuck: "\<And>S'. \<not> worker_step pf api S S'"
  shows "at_rest S"
proof -
  have none: "work pf api i (pcs S i) S = None" if "i < unat THREAD_COUNT" for i
    using stuck that by (cases "work pf api i (pcs S i) S") (auto simp: worker_step_def)
  have waits: "pcs S i = R_pop \<and> m_queue (read_queue (rt S)) = [] \<or>
      pcs S i = W_pop \<and> m_queue (write_queue (rt S)) = []" if i: "i < unat THREAD_COUNT" for i
  proof (rule ccontr)
    assume "\<not> ?thesis"
    with blocked_worker [OF inv none [OF i]] obtain l j S' where
      j: "owner S l = Some j" "work pf api j (pcs S j) S = Some S'" by blast
    have "holds (pcs S j) = Some l" using inv j(1) by (simp add: threads_inv_def)
    then have "pcs S j \<noteq> W_pop" by auto
    then have "j < unat THREAD_COUNT" using roles by (auto simp: roles_def not_le [symmetric])
    with j(2) none show False by simp
  qed
  have pcs: "pcs S i = (if i < read_thread_count THREAD_COUNT then R_pop else W_pop)" for i
  proof (cases "i < unat THREAD_COUNT")
    case True
    with waits [OF this] roles show ?thesis unfolding roles_def by (metis not_le write_pc.simps(1,7))
  next
    case False
    with roles show ?thesis by (simp add: roles_def read_thread_count_def THREAD_COUNT_def)
  qed
  moreover have "m_queue (read_queue (rt S)) = []" "m_queue (write_queue (rt S)) = []"
    using waits [of 0] waits [of 2] pcs [of 0] pcs [of 2]
    by (simp_all add: THREAD_COUNT_def read_thread_count_def)
  moreover have "owner S l = None" for l
  proof (rule ccontr)
    assume "owner S l \<noteq> None"
    then obtain j where "holds (pcs S j) = Some l" using inv by (auto simp: threads_inv_def)
    then show False by (simp add: pcs split: if_splits)
  qed
  ultimately show ?thesis by (simp add: at_rest_def fun_eq_iff)
qed

lemma comes_to_rest:
  assumes "threads_inv opened S" and "roles S"
  shows "\<exists>n S'. (worker_step pf api ^^ n) S S' \<and> at_rest S'"
  using assms
proof (induction "work_left future S" arbitrary: S rule: less_induct)
  case less
  show ?case
  proof (cases "\<exists>S1. worker_step pf api S S1")
    case True
    then obtain S1 where S1: "worker_step pf api S S1" by blast
    then have "(worker_step pf api ^^ 1) S S1" by auto
    from run_bound [OF less.prems this] less.hyps [of S1] obtain n S' where
      "(worker_step pf api ^^ n) S1 S'" "at_rest S'" by auto
    with relpowp_Suc_I2 [of "worker_step pf api", OF S1] show ?thesis by blast
  next
    case False
    with stuck_at_rest [OF less.prems, of pf] have "at_rest S" by blast
    then show ?thesis by (intro exI [of _ 0] exI [of _ S]) simp
  qed
qed

end

section \<open>The networks\<close>

interpretation net_t: timed_os "net_server pf cap" "\<lambda>w. set (open_socks w)" net_pending
  by unfold_locales (auto simp: net_server_def net_send_def net_pending_def split: if_splits)

interpretation slow_d: descriptor_api "slow_server pf cap" "\<lambda>w. set (open_socks w)"
  by unfold_locales
    (auto simp: slow_server_def net_server_def slow_recv_def net_accept_def net_send_def net_select_def net_close_def
      Let_def net_recv_open net_fresh_new SOCKET_ERROR_def split: list.splits if_splits)

interpretation slow_t: timed_os "slow_server pf cap" "\<lambda>w. set (open_socks w)" net_pending
  by unfold_locales (auto simp: slow_server_def net_server_def net_send_def net_pending_def split: if_splits)

end
