(* ===== verification/Thread_Properties.thy ===== *)
theory Thread_Properties
  imports Thread_Rest Router_Properties
begin

text \<open>
  The properties of the interleaved threads. They hold for every socket interface whose
  \<^verbatim>\<open>recv\<close> and descriptor calls behave as documented, and for every schedule.
\<close>

section \<open>Schedules\<close>

text \<open>Running a given schedule; \<open>None\<close> in a schedule stands for the event loop.\<close>

fun exec ::
    "platform \<Rightarrow> ('w, 'f, 'x) server_api_scheme \<Rightarrow> sock \<Rightarrow> 'f \<Rightarrow> nat option list \<Rightarrow> 'w threads \<Rightarrow>
     'w threads option" where
  "exec pf api server fds [] S = Some S"
| "exec pf api server fds (None # is) S =
     Option.bind (event_step pf api server fds (mpc S) S) (exec pf api server fds is)"
| "exec pf api server fds (Some i # is) S =
     (if i < unat THREAD_COUNT
      then Option.bind (work pf api i (pcs S i) S) (exec pf api server fds is) else None)"

lemma exec_reach:
  "exec pf api server fds is S = Some S' \<Longrightarrow> thread_reach pf api server w S \<Longrightarrow>
   thread_reach pf api server w S'"
proof (induction pf api server fds "is" S rule: exec.induct)
  case (2 pf api server fds "is" S)
  then show ?case
    by (cases "event_step pf api server fds (mpc S) S") (auto intro: later listener)
next
  case (3 pf api server fds i "is" S)
  then show ?case
    by (cases "work pf api i (pcs S i) S") (auto intro: later worker split: if_splits)
qed simp

text \<open>A network with one waiting connection. The event loop accepts it, sees it ready and queues
  it; the first reader takes it and locks its session.\<close>

definition start_net :: net where
  "start_net = (sample_net (\<lambda>_. []) Open)\<lparr>open_socks := [3], backlog := [[''007'']]\<rparr>"

definition sched :: "nat option list" where
  "sched = [None, None, None, None, None, None, None, None, None, Some 0, Some 0, Some 0]"

definition sched_state :: "net threads" where
  "sched_state = the (exec Win32 sample_api 3 [] sched (threads0 start_net))"

lemmas exec_defs = threads0_def router0_def squeue0_def read_thread_count_def THREAD_COUNT_def
  net_server_def net_FD_SET_def net_select_def net_ready_def net_pending_def net_accept_def net_fresh_def
  reset_fd_set_def get_accpeted_sockets_def tcp_accept_client_def set_client_socket_nonblocking_def
  set_world_def set_sess_def goto_def push_def notify_one_def try_pop_def sample_defs SOCKET_ERROR_def

lemma sched_final: "map_option (\<lambda>S. (pcs S 0, pcs S 1, m_queue (read_queue (rt S))))
      (exec Win32 sample_api 3 [] sched (threads0 start_net)) = Some (R_recheck 4 0, R_pop, [])"
  by (simp add: sched_def start_net_def sample_net_def exec_defs)

lemma sched_run:
  "thread_reach Win32 sample_api 3 start_net sched_state"
  "pcs sched_state 0 = R_recheck 4 0" "pcs sched_state 1 = R_pop"
  "m_queue (read_queue (rt sched_state)) = []"
proof -
  from sched_final have e: "exec Win32 sample_api 3 [] sched (threads0 start_net) = Some sched_state"
    by (auto simp: sched_state_def)
  then show "thread_reach Win32 sample_api 3 start_net sched_state" by (rule exec_reach) (rule initial)
  show "pcs sched_state 0 = R_recheck 4 0" "pcs sched_state 1 = R_pop"
    "m_queue (read_queue (rt sched_state)) = []" using sched_final by (simp_all add: e)
qed

lemma start_net_fds: "SOCKET_ERROR \<notin> set (open_socks start_net)"
  by (simp add: start_net_def SOCKET_ERROR_def)

section \<open>Mutual exclusion\<close>

text \<open>The socket a worker holds the mutex for.\<close>

fun holds_socket :: "pc \<Rightarrow> sock option" where
  "holds_socket (R_recheck s l) = Some s"
| "holds_socket (R_turn s l r) = Some s"
| "holds_socket (R_shake s l r) = Some s"
| "holds_socket (R_add s l r v) = Some s"
| "holds_socket (R_msg s l r) = Some s"
| "holds_socket (R_route s l r m v) = Some s"
| "holds_socket (R_push s l r m d) = Some s"
| "holds_socket (R_remove s l) = Some s"
| "holds_socket (W_send s m l) = Some s"
| "holds_socket (W_remove s l) = Some s"
| "holds_socket _ = None"

lemma holds_socket_session:
  "pc_ok st p \<Longrightarrow> holds_socket p = Some s \<Longrightarrow> \<exists>l. holds p = Some l \<and> session_socket st l = Some s"
  by (cases p) auto

text \<open>C4: Whatever the schedule, two workers are never at the same time between locking and
  unlocking the mutex of the session of one socket: all reads from a socket, all writes to it and
  the choice between identification and message are made by one worker at a time.\<close>

theorem sockets_used_exclusively:
  assumes "router_os api opened" and "thread_reach pf api server w S" and "SOCKET_ERROR \<notin> opened w"
    and "holds_socket (pcs S i) = Some s" and "holds_socket (pcs S j) = Some s"
  shows "i = j"
proof -
  note inv = router_os.inv_reach [OF assms(1-3)]
  then have pc: "pc_ok (sess (rt S)) (pcs S k)" for k by (simp add: threads_inv_def)
  have uniq: "heap_ok (opened (world (rt S))) (sess (rt S))" using inv by (simp add: threads_inv_def)
  from holds_socket_session [OF pc assms(4)] holds_socket_session [OF pc assms(5)] uniq
  obtain l where "holds (pcs S i) = Some l" "holds (pcs S j) = Some l"
    unfolding heap_ok_def by blast
  then show ?thesis by (rule router_os.mutex_exclusive [OF assms(1) inv])
qed

theorem sockets_used_exclusively_witness:
  "holds_socket (pcs sched_state 0) = Some 4 \<and> holds_socket (pcs sched_state 1) \<noteq> Some 4"
  using sockets_used_exclusively [OF net_t.router_os_axioms [of Win32 64] sched_run(1) start_net_fds,
      of 0 4 1] by (auto simp: sched_run(2))

section \<open>Safety\<close>

text \<open>C3: Whatever the schedule and whatever bytes arrive, no exception leaves a worker, the session
  tables satisfy their invariant, every task in the write queue has a message of 32 bytes, and no
  two session objects were ever made for one socket.\<close>

theorem threads_are_safe:
  assumes "router_os api opened" and "thread_reach pf api server w S" and "SOCKET_ERROR \<notin> opened w"
  shows "(\<forall>i e. pcs S i \<noteq> Thrown e) \<and> sessions_inv (sess (rt S)) \<and>
    (\<forall>t\<in>set (m_queue (write_queue (rt S))). length (snd t) = 32) \<and>
    (\<forall>r r' s. session_socket (sess (rt S)) r = Some s \<and> session_socket (sess (rt S)) r' = Some s \<longrightarrow> r = r')"
proof -
  note inv = router_os.inv_reach [OF assms]
  then have pc: "pc_ok (sess (rt S)) (pcs S i)" for i by (simp add: threads_inv_def)
  have "pcs S i \<noteq> Thrown e" for i e using pc [of i] by auto
  with inv show ?thesis by (simp add: threads_inv_def heap_ok_def)
qed

theorem threads_are_safe_witness: "sessions_inv (sess (rt sched_state)) \<and> pcs sched_state 0 = R_recheck 4 0"
  using threads_are_safe [OF net_t.router_os_axioms [of Win32 64] sched_run(1) start_net_fds] sched_run(2)
  by simp

text \<open>The event loop never registers a socket that is still in the tables, so the branch of
  \<^verbatim>\<open>Sessions::accept_client\<close> that would lock \<^verbatim>\<open>sessions_mutex_\<close> a second time is never taken
  while the threads run.\<close>

lemma event_loop_never_relocks:
  assumes "router_os api opened" and "thread_reach pf api server w S" and "SOCKET_ERROR \<notin> opened w"
    and "mpc S = M_register c ready"
  shows "find_session_by_socket c (sess (rt S)) = None \<and>
    (\<exists>st. accept_client c (sess (rt S)) = Inr st \<and> find_session_by_socket c st \<noteq> None)"
proof -
  note inv = router_os.inv_reach [OF assms(1-3)]
  obtain st where st: "accept_client c (sess (rt S)) = Inr st"
    using router_os.no_relock [OF assms(1) inv assms(4)] by blast
  then have none: "sessions_by_socket (sess (rt S)) c = None"
    using accept_client_relock by (cases "sessions_by_socket (sess (rt S)) c") auto
  from st [unfolded accept_client_fresh [OF none]] st none show ?thesis
    by (auto simp: find_session_by_socket_def)
qed

section \<open>Progress\<close>

text \<open>C5: The threads never deadlock: in every state of every schedule the event loop can take a
  step, and a worker that cannot take one waits for an element of an empty queue, or for the mutex
  of a session that another worker holds, and that worker can take a step.\<close>

theorem threads_progress:
  assumes "router_os api opened" and "thread_reach pf api server w S" and "SOCKET_ERROR \<notin> opened w"
  shows "(\<exists>S'. event_step pf api server fds (mpc S) S = Some S') \<and>
    (\<forall>i. work pf api i (pcs S i) S = None \<longrightarrow>
       pcs S i = R_pop \<and> m_queue (read_queue (rt S)) = [] \<or>
       pcs S i = W_pop \<and> m_queue (write_queue (rt S)) = [] \<or>
       (\<exists>l j S'. wants (pcs S i) = Some l \<and> owner S l = Some j \<and> j \<noteq> i \<and>
          work pf api j (pcs S j) S = Some S'))"
proof (intro conjI allI impI)
  note inv = router_os.inv_reach [OF assms]
  show "\<exists>S'. event_step pf api server fds (mpc S) S = Some S'"
    by (rule router_os.listener_runs [OF assms(1) inv])
qed (rule router_os.blocked_worker [OF assms(1) router_os.inv_reach [OF assms]])

theorem threads_progress_witness:
  "(\<exists>S'. event_step Win32 sample_api 3 [] (mpc sched_state) sched_state = Some S') \<and>
   work Win32 sample_api 1 (pcs sched_state 1) sched_state = None"
proof -
  have "work Win32 sample_api 1 (pcs sched_state 1) sched_state = None"
    unfolding sched_run(3) by (simp add: try_pop_def sched_run(4))
  with threads_progress [OF net_t.router_os_axioms [of Win32 64] sched_run(1) start_net_fds, of "[]"]
  show ?thesis by blast
qed

section \<open>Workers and handlers\<close>

text \<open>C16: A worker that has taken an element from its queue and runs without interruption does
  exactly what its handler does, \<^verbatim>\<open>do_reads\<close> or \<^verbatim>\<open>do_writes\<close>, returns to its queue and gives
  back the session's mutex, when nobody holds that mutex at the start; the other threads are not
  affected.\<close>

theorem workers_implement_handlers:
  assumes "\<forall>l. find_session_by_socket s (sess (rt S)) = Some l \<longrightarrow> owner S l = None"
  shows "(pcs S i = R_find s \<and> do_reads pf api s (bufs S i) (rt S) = Some (Inr (buf', R')) \<longrightarrow>
      (\<lambda>S S'. work pf api i (pcs S i) S = Some S')\<^sup>*\<^sup>* S
        (S\<lparr>rt := R', pcs := (pcs S)(i := R_pop), bufs := (bufs S)(i := buf')\<rparr>)) \<and>
    (pcs S i = W_find s m \<longrightarrow>
      (\<lambda>S S'. work pf api i (pcs S i) S = Some S')\<^sup>*\<^sup>* S
        (S\<lparr>rt := do_writes api (s, m) (rt S), pcs := (pcs S)(i := W_pop)\<rparr>))"
  using reader_run [of S i s pf api buf' R'] writer_run [of S i s m pf api] assms by (auto simp: alone_def)

text \<open>A router whose workers have just taken socket 5, or a message for it.\<close>

definition busy :: "pc \<Rightarrow> net router \<Rightarrow> net threads" where
  "busy p R = \<lparr>rt = R, owner = Map.empty, pcs = (\<lambda>_. p), bufs = (\<lambda>_. sample_buf), mpc = M_top\<rparr>"

lemma sample_do_reads:
  "\<exists>buf' R'. do_reads Win32 sample_api 5 sample_buf (sample_router 999 [''007''] Open) =
     Some (Inr (buf', R')) \<and> routes (table_of (sess R')) 7 = Some 5"
proof -
  let ?R = "sample_router 999 [''007''] Open"
  let ?t = "table_of (sess ?R)"
  have id: "buildIdMessage 7 = ''007''" by code_simp
  have "do_reads_spec (net_status (world ?R) 5) 5 (net_pending (world ?R) 5) ?t = (tbl_add 5 7 ?t, [], [])"
    using reads_spec_session [OF sample_conns(1) [of "[''007'']" Open], of 7 "[]" "[]" Open]
    by (simp add: do_reads_spec_def id sample_world id_ok_def MAX_CLIENTS_COUNT_def deliveries_def
        SOCKET_ERROR_def)
  from quiet_stream.do_reads_run [OF net_s.quiet_stream_axioms [of Win32 64] sample_inv
      sample_conns(1) _ this, of sample_buf]
  show ?thesis by (auto simp: tbl_add_def sample_conns MAX_CLIENTS_COUNT_def domIff)
qed

theorem workers_implement_handlers_witness:
  "(\<exists>S'. (\<lambda>S S'. work Win32 sample_api 0 (pcs S 0) S = Some S')\<^sup>*\<^sup>*
       (busy (R_find 5) (sample_router 999 [''007''] Open)) S' \<and>
     routes (table_of (sess (rt S'))) 7 = Some 5 \<and> owner S' = Map.empty) \<and>
   (\<exists>S'. (\<lambda>S S'. work Win32 sample_api 2 (pcs S 2) S = Some S')\<^sup>*\<^sup>*
       (busy (W_find 5 ''x'') (sample_router 7 [] Open)) S' \<and> outbound (world (rt S')) 5 = [''x''])"
proof
  let ?S = "busy (R_find 5) (sample_router 999 [''007''] Open)"
  obtain buf' R' where d: "do_reads Win32 sample_api 5 (bufs ?S 0) (rt ?S) = Some (Inr (buf', R'))"
    and r: "routes (table_of (sess R')) 7 = Some 5" using sample_do_reads by (auto simp: busy_def)
  have "(\<lambda>S S'. work Win32 sample_api 0 (pcs S 0) S = Some S')\<^sup>*\<^sup>* ?S
      (?S\<lparr>rt := R', pcs := (pcs ?S)(0 := R_pop), bufs := (bufs ?S)(0 := buf')\<rparr>)"
    using workers_implement_handlers [of 5 ?S 0 Win32 sample_api buf' R'] d by (simp add: busy_def)
  then show "\<exists>S'. (\<lambda>S S'. work Win32 sample_api 0 (pcs S 0) S = Some S')\<^sup>*\<^sup>* ?S S' \<and>
      routes (table_of (sess (rt S'))) 7 = Some 5 \<and> owner S' = Map.empty"
    by (intro exI conjI) (assumption, simp_all add: busy_def r)
next
  let ?S = "busy (W_find 5 ''x'') (sample_router 7 [] Open)"
  have "outbound (world (do_writes sample_api (5, ''x'') (rt ?S))) 5 = [''x'']"
    by (simp add: busy_def do_writes_def sample_router_def sample_defs sample_net_def send_to_client_def
        net_server_def net_send_def)
  with workers_implement_handlers [of 5 ?S 2 Win32 sample_api _ _ "''x''"]
  show "\<exists>S'. (\<lambda>S S'. work Win32 sample_api 2 (pcs S 2) S = Some S')\<^sup>*\<^sup>* ?S S' \<and>
      outbound (world (rt S')) 5 = [''x'']"
    by (intro exI conjI) (auto simp: busy_def)
qed

text \<open>The event loop that runs without interruption from the top of its loop does exactly what one
  pass \<open>event_pass\<close> does and is at the top again; the workers, their buffers and the mutexes are
  not affected.\<close>

lemma listener_implements_event_pass:
  assumes "mpc S = M_top" and "event_pass pf api server fds (rt S) = Inr (fds', R')"
  shows "(\<lambda>S S'. event_step pf api server fds (mpc S) S = Some S')\<^sup>*\<^sup>* S (S\<lparr>rt := R'\<rparr>)"
  using listener_run [OF assms] by (simp add: listen_def)

section \<open>Rest\<close>

text \<open>C6: The workers come to rest: on streams that end, from every state of every schedule, however
  the workers are scheduled while the event loop does not run, they take at most \<open>work_left\<close> steps,
  and when none of them can take a step, all of them wait at their queues, both queues are empty and
  no session's mutex is held; such a state can be reached.\<close>

theorem workers_come_to_rest:
  assumes "timed_os api opened future" and "thread_reach pf api server w S" and "SOCKET_ERROR \<notin> opened w"
  shows "(\<forall>n S'. (worker_step pf api ^^ n) S S' \<longrightarrow> n + work_left future S' \<le> work_left future S \<and>
      ((\<exists>S''. worker_step pf api S' S'') \<or> at_rest S')) \<and>
    (\<exists>n S'. (worker_step pf api ^^ n) S S' \<and> at_rest S')"
proof -
  have "router_os api opened" using assms(1) by (simp add: timed_os_def)
  note inv = router_os.inv_reach [OF this assms(2,3)] roles_reach [OF assms(2)]
  note run = timed_os.run_bound [OF assms(1) inv]
  have "(\<exists>S''. worker_step pf api S' S'') \<or> at_rest S'" if "(worker_step pf api ^^ n) S S'" for n S'
    using run [OF that] timed_os.stuck_at_rest [OF assms(1), of S' pf] by blast
  with run timed_os.comes_to_rest [OF assms(1) inv] show ?thesis by blast
qed

theorem workers_come_to_rest_witness:
  "\<exists>n S'. (worker_step Win32 sample_api ^^ n) sched_state S' \<and> at_rest S' \<and> n \<le> work_left net_pending sched_state"
proof -
  note rest = workers_come_to_rest [OF net_t.timed_os_axioms [of Win32 64] sched_run(1) start_net_fds]
  obtain n S' where "(worker_step Win32 sample_api ^^ n) sched_state S'" "at_rest S'"
    using rest [THEN conjunct2] by blast
  moreover from this(1) rest [THEN conjunct1] have "n \<le> work_left net_pending sched_state"
    using add_leD1 by blast
  ultimately show ?thesis by blast
qed

text \<open>C36: The two write workers can exchange messages: when two messages for one socket are at the
  head of the write queue and both writers wait there, there is a schedule that sends the second
  message before the first.\<close>

theorem writers_may_reorder:
  assumes "find_session_by_socket s (sess (rt S)) = Some l" and "owner S l = None"
    and "pcs S 2 = W_pop" and "pcs S 3 = W_pop"
    and "m_queue (write_queue (rt S)) = (s, m1) # (s, m2) # q"
    and "api_send api s m2 (world (rt S)) = (int (length m2), w1)"
    and "api_send api s m1 w1 = (int (length m1), w2)"
  shows "\<exists>S'. (thread_step pf api server)\<^sup>*\<^sup>* S S' \<and> world (rt S') = w2 \<and>
    m_queue (write_queue (rt S')) = q \<and> pcs S' = pcs S"
proof -
  let ?queue = "\<lambda>xs. (rt S)\<lparr>write_queue := (write_queue (rt S))\<lparr>m_queue := xs\<rparr>\<rparr>"
  define S1 where "S1 = goto 2 (W_find s m1) (S\<lparr>rt := ?queue ((s, m2) # q)\<rparr>)"
  define S2 where "S2 = goto 3 (W_find s m2) (S1\<lparr>rt := ?queue q\<rparr>)"
  define S3 where "S3 = S2\<lparr>rt := do_writes api (s, m2) (rt S2), pcs := (pcs S2)(3 := W_pop)\<rparr>"
  define S4 where "S4 = S3\<lparr>rt := do_writes api (s, m1) (rt S3), pcs := (pcs S3)(2 := W_pop)\<rparr>"
  have "work pf api 2 (pcs S 2) S = Some S1"
    using assms(3,5) by (simp add: try_pop_def S1_def)
  then have "thread_step pf api server S S1" by (rule worker [rotated]) (simp add: THREAD_COUNT_def)
  moreover have "work pf api 3 (pcs S1 3) S1 = Some S2"
    using assms(4) by (simp add: try_pop_def S1_def S2_def goto_def)
  then have "thread_step pf api server S1 S2" by (rule worker [rotated]) (simp add: THREAD_COUNT_def)
  moreover have "alone pf api 3 S2 S3"
    unfolding S3_def by (rule writer_run) (use assms(1,2) in \<open>simp_all add: S2_def S1_def goto_def\<close>)
  then have "(thread_step pf api server)\<^sup>*\<^sup>* S2 S3" by (rule alone_thread_steps) (simp add: THREAD_COUNT_def)
  moreover have rt3: "rt S3 = (?queue q)\<lparr>world := w1\<rparr>"
    using assms(1,6) by (simp add: S3_def S2_def goto_def do_writes_def send_to_client_def)
  moreover have "alone pf api 2 S3 S4"
    unfolding S4_def by (rule writer_run)
      (use assms(1,2) rt3 in \<open>simp_all add: S3_def S2_def S1_def goto_def\<close>)
  then have "(thread_step pf api server)\<^sup>*\<^sup>* S3 S4" by (rule alone_thread_steps) (simp add: THREAD_COUNT_def)
  moreover have "rt S4 = (?queue q)\<lparr>world := w2\<rparr>"
    using assms(1,7) rt3 by (simp add: S4_def do_writes_def send_to_client_def)
  moreover have "pcs S4 = pcs S"
    using assms(3,4) by (auto simp: S4_def S3_def S2_def S1_def goto_def)
  ultimately show ?thesis
    by (intro exI [of _ S4]) (auto intro: rtranclp_trans converse_rtranclp_into_rtranclp)
qed

theorem writers_may_reorder_witness:
  "\<exists>S'. (thread_step Win32 sample_api 3)\<^sup>*\<^sup>*
       (busy W_pop ((sample_router 7 [] Open)\<lparr>write_queue := squeue0\<lparr>m_queue := [(5, ''a''), (5, ''b'')]\<rparr>\<rparr>)) S' \<and>
     outbound (world (rt S')) 5 = [''b'', ''a'']"
proof -
  let ?w = "sample_net ((\<lambda>_. [])(5 := [])) Open"
  let ?S = "busy W_pop ((sample_router 7 [] Open)\<lparr>write_queue := squeue0\<lparr>m_queue := [(5, ''a''), (5, ''b'')]\<rparr>\<rparr>)"
  let ?w1 = "snd (net_send 5 ''b'' ?w)"
  have "find_session_by_socket 5 (sess (rt ?S)) = Some 1"
    by (simp add: busy_def sample_router_def sample_defs)
  moreover have "api_send sample_api 5 ''b'' (world (rt ?S)) = (int (length ''b''), ?w1)"
    "api_send sample_api 5 ''a'' ?w1 = (int (length ''a''), snd (net_send 5 ''a'' ?w1))"
    "outbound (snd (net_send 5 ''a'' ?w1)) 5 = [''b'', ''a'']"
    by (simp_all add: busy_def sample_router_def net_server_def net_send_def sample_net_def)
  ultimately show ?thesis
    using writers_may_reorder [of 5 ?S 1 "''a''" "''b''" "[]" sample_api ?w1 "snd (net_send 5 ''a'' ?w1)" Win32 3]
    by (auto simp: busy_def)
qed

end
