(* ===== verification/Arrival_Properties.thy ===== *)
theory Arrival_Properties
  imports Router_Arrivals Router_Properties
begin

text \<open>
  The properties of the read handler on streams with any timing, and what happens to messages and
  identifiers that do not fit the frames the router reads.
\<close>

section \<open>Any timing\<close>

text \<open>C9: Whatever the timing of the arriving bytes, on a finite stream the read handler returns
  without an exception, and everything it puts into the write queue are 32-byte pieces of the
  stream, in the order of the stream and without overlap; it goes through the stream in turns that
  identify the connection, forward a message to the socket its destination is routed to, or drop
  a piece, and changes no other connection.\<close>

theorem do_reads_any_timing:
  assumes "timed_stream api future" and "sessions_inv (sess R)"
    and "find_session_by_socket s (sess R) = Some r" and "32 < length buf"
  shows "\<exists>buf' R' t' out pieces. do_reads pf api s buf R = Some (Inr (buf', R')) \<and>
    sessions_inv (sess R') \<and> m_queue (write_queue R') = m_queue (write_queue R) @ out \<and>
    read_turns s (future (world R) s) (table_of (sess R)) t' out (future (world R') s) \<and>
    (table_of (sess R') = t' \<or> table_of (sess R') = tbl_remove s t') \<and>
    future (world R) s = concat pieces @ future (world R') s \<and> subseq (map snd out) pieces \<and>
    (\<forall>f\<in>set (map snd out). length f = 32) \<and>
    (\<forall>u. u \<noteq> s \<longrightarrow> conns (table_of (sess R')) u = conns (table_of (sess R)) u \<and>
       future (world R') u = future (world R) u)"
proof -
  obtain buf' R' t' out where d: "do_reads pf api s buf R = Some (Inr (buf', R'))" "sessions_inv (sess R')"
    "read_turns s (future (world R) s) (table_of (sess R)) t' out (future (world R') s)"
    "table_of (sess R') = t' \<or> table_of (sess R') = tbl_remove s t'"
    "m_queue (write_queue R') = m_queue (write_queue R) @ out"
    "\<forall>u. u \<noteq> s \<longrightarrow> future (world R') u = future (world R) u"
    using timed_stream.do_reads_timed [OF assms(1,2) _ assms(4), of s r pf] assms(3)
    by (auto simp: find_session_by_socket_def)
  have "conns (tbl_remove s t') u = conns t' u" if "u \<noteq> s" for u
    using that by (cases "conns t' s") (auto simp: tbl_remove_def)
  with d(4) read_turns_table [OF d(3)]
  have "\<forall>u. u \<noteq> s \<longrightarrow> conns (table_of (sess R')) u = conns (table_of (sess R)) u" by auto
  with d read_turns_pieces [OF d(3)] show ?thesis by blast
qed

theorem do_reads_any_timing_witness:
  "\<exists>buf' R'. do_reads Win32 (slow_server Win32 64) 5 sample_buf
     (sample_router 999 [''0'', '''', ''07'', '''', ''x''] Open) = Some (Inr (buf', R')) \<and> sessions_inv (sess R')"
proof -
  have "find_session_by_socket 5 (sess (sample_router 999 [''0'', '''', ''07'', '''', ''x''] Open)) = Some 1"
    by (simp add: sample_router_def sample_defs)
  from do_reads_any_timing [OF slow.timed_stream_axioms [of Win32 64] sample_inv this, of sample_buf Win32]
  show ?thesis by auto
qed

section \<open>Bytes that do not fit\<close>

text \<open>C34: A message of which only the first three bytes have arrived when its socket is read is lost
  together with the next one: the three bytes are dropped, and the following frame runs from the
  middle of the message to the source identifier of the next message, so that the router forwards
  this mixture back to the sender.\<close>

theorem split_message_is_misrouted:
  assumes "quiet_stream api pending pf status" and "sessions_inv (sess R)" and "32 < length buf"
    and "conns (table_of (sess R)) s = Some a" and "routes (table_of (sess R)) a = Some s"
    and "msg_ok m1" and "msg_ok m2" and "m_src m2 = a" and "status (world R) s = Open"
    and "pending (world R) s = take 3 (encode_msg m1)"
  shows "\<exists>buf1 R1. do_reads pf api s buf R = Some (Inr (buf1, R1)) \<and>
    m_queue (write_queue R1) = m_queue (write_queue R) \<and> pending (world R1) s = [] \<and>
    (\<forall>R2. sess R2 = sess R1 \<and> status (world R2) s = Open \<and>
         pending (world R2) s = drop 3 (encode_msg m1) @ encode_msg m2 \<longrightarrow>
       (\<exists>buf2 R3. do_reads pf api s buf R2 = Some (Inr (buf2, R3)) \<and>
          m_queue (write_queue R3) = m_queue (write_queue R2) @
            [(s, drop 3 (encode_msg m1) @ take 3 (encode_msg m2))] \<and>
          pending (world R3) s = []))"
proof -
  let ?t = "table_of (sess R)"
  have l: "length (encode_msg m1) = 32" "length (encode_msg m2) = 32"
    using assms(6,7) by (simp_all add: length_encode_msg)
  have id: "id_ok a" using assms(7,8) by (simp add: msg_ok_def)
  then have a: "a \<noteq> NONE" by (auto simp: id_ok_def NONE_def)
  have "take 3 (encode_msg m2) = setw_setfill0 3 a"
    using substr_encode_msg(1) [OF assms(7), of "[]"] assms(8) by (simp add: substr_def)
  then have pa: "parse_id (take 3 (encode_msg m2)) = a" using id by (simp add: parse_id_def id_field.dec_enc)
  have "do_reads_spec (status (world R) s) s (pending (world R) s) ?t = (?t, [], [])"
    using assms(4,9,10) a l by (simp add: do_reads_spec_def reads_spec_short frame_size_def SOCKET_ERROR_def)
  from quiet_stream.do_reads_run [OF assms(1,2,4,3) this] obtain buf1 R1 where
    R1: "do_reads pf api s buf R = Some (Inr (buf1, R1))" "sessions_inv (sess R1)" "table_of (sess R1) = ?t"
      "m_queue (write_queue R1) = m_queue (write_queue R)" "pending (world R1) s = []" by auto
  have "\<exists>buf2 R3. do_reads pf api s buf R2 = Some (Inr (buf2, R3)) \<and>
      m_queue (write_queue R3) = m_queue (write_queue R2) @
        [(s, drop 3 (encode_msg m1) @ take 3 (encode_msg m2))] \<and> pending (world R3) s = []"
    if R2: "sess R2 = sess R1" "status (world R2) s = Open"
      "pending (world R2) s = drop 3 (encode_msg m1) @ encode_msg m2" for R2
  proof -
    have c: "conns (table_of (sess R2)) s = Some a" using assms(4) by (simp add: R2(1) R1(3))
    let ?f = "drop 3 (encode_msg m1) @ take 3 (encode_msg m2)"
    have "do_reads_spec (status (world R2) s) s (pending (world R2) s) (table_of (sess R2)) =
        (table_of (sess R2), [(s, ?f)], [])"
      using c a l assms(5) pa R2 by (simp add: do_reads_spec_def reads_spec_frame reads_spec_short
          frame_size_def SOCKET_ERROR_def R1(3))
    from quiet_stream.do_reads_run [OF assms(1) _ c assms(3) this] R1(2) R2(1) show ?thesis by auto
  qed
  with R1 show ?thesis by blast
qed

theorem split_message_is_misrouted_witness:
  "\<exists>buf1 R1 buf2 R3. do_reads Win32 sample_api 5 sample_buf (sample_router 7 [''007''] Open) =
       Some (Inr (buf1, R1)) \<and>
     do_reads Win32 sample_api 5 sample_buf (R1\<lparr>write_queue := squeue0, world := sample_net
       ((\<lambda>_. [])(5 := [''22001234561111111111111111003'', ''00722001234561111111111111111003''])) Open\<rparr>) =
       Some (Inr (buf2, R3)) \<and>
     m_queue (write_queue R3) = [(5, ''22001234561111111111111111003007'')]"
proof -
  let ?R = "sample_router 7 [''007''] Open"
  let ?w = "sample_net ((\<lambda>_. [])(5 := [''22001234561111111111111111003'', ''00722001234561111111111111111003''])) Open"
  have e: "encode_msg (first_msg 7 3) = ''00722001234561111111111111111003''" by code_simp
  have ok: "msg_ok (first_msg 7 3)" by (simp add: msg_ok_first id_ok_def)
  have rt: "routes (table_of (sess ?R)) 7 = Some 5" by (simp add: sample_router_def sample_defs)
  have c: "conns (table_of (sess ?R)) 5 = Some 7" by (simp add: sample_conns)
  have p: "net_pending (world ?R) 5 = take 3 (encode_msg (first_msg 7 3))" by (simp add: sample_world e)
  have src: "m_src (first_msg 7 3) = 7" by (simp add: first_msg_def)
  have w: "net_status ?w 5 = Open" "net_pending ?w 5 = drop 3 (encode_msg (first_msg 7 3)) @ encode_msg (first_msg 7 3)"
    by (simp_all add: sample_net_def net_pending_def e)
  have "32 < length sample_buf" by simp
  from split_message_is_misrouted [OF net_s.quiet_stream_axioms [of Win32 64] sample_inv this c rt ok ok src
      sample_world(2) p]
  obtain buf1 R1 where R1: "do_reads Win32 sample_api 5 sample_buf ?R = Some (Inr (buf1, R1))"
    and later: "\<forall>R2. sess R2 = sess R1 \<and> net_status (world R2) 5 = Open \<and> net_pending (world R2) 5 =
        drop 3 (encode_msg (first_msg 7 3)) @ encode_msg (first_msg 7 3) \<longrightarrow>
      (\<exists>buf2 R3. do_reads Win32 sample_api 5 sample_buf R2 = Some (Inr (buf2, R3)) \<and>
        m_queue (write_queue R3) = m_queue (write_queue R2) @
          [(5, drop 3 (encode_msg (first_msg 7 3)) @ take 3 (encode_msg (first_msg 7 3)))] \<and>
        net_pending (world R3) 5 = [])" by (elim exE conjE) (rule that)
  have "\<exists>buf2 R3. do_reads Win32 sample_api 5 sample_buf (R1\<lparr>write_queue := squeue0, world := ?w\<rparr>) =
       Some (Inr (buf2, R3)) \<and> m_queue (write_queue R3) = [(5, ''22001234561111111111111111003007'')]"
    using later [rule_format, of "R1\<lparr>write_queue := squeue0, world := ?w\<rparr>"] w by (auto simp: squeue0_def e)
  with R1 show ?thesis by blast
qed

lemma buildIdMessage_four_digits:
  assumes "1000 \<le> i" and "i \<le> 9999"
  shows "buildIdMessage i = buildIdMessage (i div 10) @ [digit_char (nat i mod 10)]"
proof -
  have "show_nat (nat i) = show_nat (nat i div 10) @ [digit_char (nat i mod 10)]"
    using assms by (simp add: show_nat.simps [of "nat i"])
  moreover have "length (show_nat (nat i div 10)) = 3"
  proof -
    have "100 \<le> nat i div 10" "nat i div 10 < 1000" using assms by linarith+
    then have "length (show_nat (nat i div 10)) \<le> Suc 2" "\<not> length (show_nat (nat i div 10)) \<le> Suc 1"
      by (simp_all only: length_show_nat) simp_all
    then show ?thesis by simp
  qed
  moreover have "nat (i div 10) = nat i div 10" using assms by (simp add: nat_div_distrib)
  ultimately show ?thesis using assms by (simp add: buildIdMessage_def setw_setfill0_def show_int_def)
qed

text \<open>An identifier of four digits, which nothing in the node refuses, is cut to its first three
  digits: the node \<open>i\<close> is registered as \<open>i div 10\<close>, and the last digit is taken for the beginning
  of the first message.\<close>

lemma four_digit_id_is_cut:
  assumes "quiet_stream api pending pf status" and "sessions_inv (sess R)"
    and "conns (table_of (sess R)) s = Some NONE" and "32 < length buf"
    and "1000 \<le> i" and "i < 9990" and "status (world R) s = Open"
    and "pending (world R) s = buildIdMessage i"
  shows "\<exists>buf' R'. do_reads pf api s buf R = Some (Inr (buf', R')) \<and>
    conns (table_of (sess R')) s = Some (i div 10) \<and>
    routes (table_of (sess R')) = (routes (table_of (sess R)))(i div 10 \<mapsto> s) \<and>
    pending (world R') s = []"
proof -
  let ?t = "table_of (sess R)" and ?j = "i div 10"
  have j: "id_ok ?j" "?j < MAX_CLIENTS_COUNT" using assms(5,6) by (auto simp: id_ok_def MAX_CLIENTS_COUNT_def)
  have "conns (tbl_add s ?j ?t) s = Some ?j" "routes (tbl_add s ?j ?t) = (routes ?t)(?j \<mapsto> s)"
    using assms(3) j(2) by (simp_all add: tbl_add_def domIff)
  moreover have "do_reads_spec (status (world R) s) s (pending (world R) s) ?t = (tbl_add s ?j ?t, [], [])"
    using reads_spec_session [OF assms(3) j, of "[]" "[digit_char (nat i mod 10)]" Open] assms(5-8)
    by (simp add: do_reads_spec_def buildIdMessage_four_digits deliveries_def SOCKET_ERROR_def)
  ultimately show ?thesis using quiet_stream.do_reads_run [OF assms(1-4)] by auto
qed

end
