(* ===== verification/Logger.thy ===== *)
theory Logger
  imports Prelude
begin

text \<open>
  The class \<^verbatim>\<open>Logger\<close> and the logging macros (\<^verbatim>\<open>node/include/logger.h\<close> and the identical
  \<^verbatim>\<open>router/include/logger.h\<close>). The library \<^verbatim>\<open>spdlog\<close> they wrap is not part of the sources: it is
  a parameter, a record of functions over an abstract log state \<open>'l\<close>, and what the wrapper relies
  on is the locale \<open>spdlog_laws\<close>. \<^verbatim>\<open>spdlog::get\<close> yields a null pointer for a name that is not
  registered and the macros call through that pointer without a test, which is the error value
  \<open>Null_logger\<close>.
\<close>

section \<open>The library\<close>

datatype level = Trace | Debug | Info | Warn | Err | Critical

datatype sink =
    Stdout_color_sink_mt string
  | Rotating_file_sink_mt string nat nat string

record logger =
  logger_name :: string
  logger_sink :: sink
  logger_level :: level

datatype fmt_arg = Fmt_int int | Fmt_str string

text \<open>Creating a sink and registering a logger can raise \<^verbatim>\<open>spdlog_ex\<close>; its text is the left
  value.\<close>

record 'l spd_api =
  spd_stdout :: "'l \<Rightarrow> (string + unit) \<times> 'l"
  spd_rotating_file :: "string \<Rightarrow> nat \<Rightarrow> nat \<Rightarrow> 'l \<Rightarrow> (string + unit) \<times> 'l"
  spd_register :: "logger \<Rightarrow> 'l \<Rightarrow> (string + unit) \<times> 'l"
  spd_flush_on :: "level \<Rightarrow> 'l \<Rightarrow> 'l"
  spd_get :: "string \<Rightarrow> 'l \<Rightarrow> logger option"
  spd_log :: "logger \<Rightarrow> level \<Rightarrow> string \<Rightarrow> fmt_arg list \<Rightarrow> 'l \<Rightarrow> 'l"
  spd_cerr :: "string \<Rightarrow> 'l \<Rightarrow> 'l"

section \<open>The code\<close>

text \<open>The body of the \<^verbatim>\<open>try\<close> block of \<^verbatim>\<open>Initialize\<close>: the two sinks with their patterns, then the
  two loggers, which are registered only when both sinks exist.\<close>

definition create_sinks ::
    "('l, 'x) spd_api_scheme \<Rightarrow> string \<Rightarrow> nat \<Rightarrow> nat \<Rightarrow> 'l \<Rightarrow> (string + sink \<times> sink) \<times> 'l" where
  "create_sinks spd file_path max_file_size max_files l =
     (case spd_stdout spd l of
        (Inl ex, l1) \<Rightarrow> (Inl ex, l1)
      | (Inr _, l1) \<Rightarrow>
          (case spd_rotating_file spd file_path max_file_size max_files l1 of
             (Inl ex, l2) \<Rightarrow> (Inl ex, l2)
           | (Inr _, l2) \<Rightarrow>
               (Inr (Stdout_color_sink_mt ''%^[%T] : %v%$'',
                     Rotating_file_sink_mt file_path max_file_size max_files
                       ''[%Y-%m-%d %T.%e] [%l] : %v''), l2)))"

definition register_loggers ::
    "('l, 'x) spd_api_scheme \<Rightarrow> sink \<Rightarrow> sink \<Rightarrow> 'l \<Rightarrow> (string + unit) \<times> 'l" where
  "register_loggers spd console_sink file_sink l =
     (let console_logger = \<lparr>logger_name = ''console'', logger_sink = console_sink, logger_level = Trace\<rparr>;
          file_logger = \<lparr>logger_name = ''file'', logger_sink = file_sink, logger_level = Trace\<rparr>
      in case spd_register spd console_logger l of
           (Inl ex, l1) \<Rightarrow> (Inl ex, l1)
         | (Inr _, l1) \<Rightarrow>
             (case spd_register spd file_logger l1 of
                (Inl ex, l2) \<Rightarrow> (Inl ex, l2)
              | (Inr _, l2) \<Rightarrow> (Inr (), spd_flush_on spd Err l2)))"

definition Logger_Initialize ::
    "('l, 'x) spd_api_scheme \<Rightarrow> string \<Rightarrow> nat \<Rightarrow> nat \<Rightarrow> 'l \<Rightarrow> 'l" where
  "Logger_Initialize spd file_path max_file_size max_files l =
     (case (case create_sinks spd file_path max_file_size max_files l of
              (Inl ex, l1) \<Rightarrow> (Inl ex, l1)
            | (Inr (console_sink, file_sink), l1) \<Rightarrow> register_loggers spd console_sink file_sink l1) of
        (Inl ex, l2) \<Rightarrow> spd_cerr spd (''Logger initialization failed: '' @ ex @ [CHR 0x0A]) l2
      | (Inr _, l2) \<Rightarrow> l2)"

text \<open>The default arguments.\<close>

definition default_file_path :: string where
  "default_file_path = ''logs/app.log''"

definition default_max_file_size :: nat where
  "default_max_file_size = 1024 * 1024 * 5"

definition default_max_files :: nat where
  "default_max_files = 3"

definition Logger_Console :: "('l, 'x) spd_api_scheme \<Rightarrow> 'l \<Rightarrow> logger option" where
  "Logger_Console spd l = spd_get spd ''console'' l"

definition Logger_File :: "('l, 'x) spd_api_scheme \<Rightarrow> 'l \<Rightarrow> logger option" where
  "Logger_File spd l = spd_get spd ''file'' l"

datatype log_error = Null_logger

text \<open>The macros for the console and for the file, one for each level.\<close>

definition LOG ::
    "('l, 'x) spd_api_scheme \<Rightarrow> level \<Rightarrow> string \<Rightarrow> fmt_arg list \<Rightarrow> 'l \<Rightarrow> log_error + 'l" where
  "LOG spd lv fmt args l =
     (case Logger_Console spd l of
        None \<Rightarrow> Inl Null_logger
      | Some lg \<Rightarrow> Inr (spd_log spd lg lv fmt args l))"

definition FLOG ::
    "('l, 'x) spd_api_scheme \<Rightarrow> level \<Rightarrow> string \<Rightarrow> fmt_arg list \<Rightarrow> 'l \<Rightarrow> log_error + 'l" where
  "FLOG spd lv fmt args l =
     (case Logger_File spd l of
        None \<Rightarrow> Inl Null_logger
      | Some lg \<Rightarrow> Inr (spd_log spd lg lv fmt args l))"

section \<open>What the library promises\<close>

text \<open>The registry maps names to loggers. Registering adds a name or, when the name is taken,
  raises; nothing else changes the registry.\<close>

locale spdlog_laws =
  fixes spd :: "('l, 'x) spd_api_scheme"
  assumes register_new: "spd_get spd (logger_name lg) l = None \<Longrightarrow> fst (spd_register spd lg l) = Inr ()"
    and register_taken: "spd_get spd (logger_name lg) l \<noteq> None \<Longrightarrow> \<exists>ex. fst (spd_register spd lg l) = Inl ex"
    and register_get: "spd_get spd n (snd (spd_register spd lg l)) =
      (if n = logger_name lg \<and> spd_get spd n l = None then Some lg else spd_get spd n l)"
    and stdout_get: "spd_get spd n (snd (spd_stdout spd l)) = spd_get spd n l"
    and file_get: "spd_get spd n (snd (spd_rotating_file spd p k m l)) = spd_get spd n l"
    and flush_get: "spd_get spd n (spd_flush_on spd lv l) = spd_get spd n l"
    and log_get: "spd_get spd n (spd_log spd lg lv fmt args l) = spd_get spd n l"
    and cerr_get: "spd_get spd n (spd_cerr spd t l) = spd_get spd n l"
begin

text \<open>Both loggers are registered, which is what every log statement needs.\<close>

definition ready :: "'l \<Rightarrow> bool" where
  "ready l \<longleftrightarrow> Logger_Console spd l \<noteq> None \<and> Logger_File spd l \<noteq> None"

lemma LOG_ready: "ready l \<Longrightarrow> \<exists>l'. LOG spd lv fmt args l = Inr l' \<and> ready l'"
  by (auto simp: ready_def LOG_def Logger_Console_def Logger_File_def log_get)

lemma FLOG_ready: "ready l \<Longrightarrow> \<exists>l'. FLOG spd lv fmt args l = Inr l' \<and> ready l'"
  by (auto simp: ready_def FLOG_def Logger_Console_def Logger_File_def log_get)

lemma create_sinks_get: "spd_get spd n (snd (create_sinks spd p k m l)) = spd_get spd n l"
  using stdout_get [of n l] file_get [of n p k m]
  by (auto simp: create_sinks_def split: prod.splits sum.splits) (metis snd_conv)+

lemma Logger_Initialize_ready:
  assumes "fst (create_sinks spd p k m l) = Inr (cs, fs)"
    and "spd_get spd ''console'' l = None" and "spd_get spd ''file'' l = None"
  shows "Logger_Console spd (Logger_Initialize spd p k m l) =
      Some \<lparr>logger_name = ''console'', logger_sink = cs, logger_level = Trace\<rparr>"
    and "Logger_File spd (Logger_Initialize spd p k m l) =
      Some \<lparr>logger_name = ''file'', logger_sink = fs, logger_level = Trace\<rparr>"
proof -
  let ?c = "\<lparr>logger_name = ''console'', logger_sink = cs, logger_level = Trace\<rparr>"
  let ?f = "\<lparr>logger_name = ''file'', logger_sink = fs, logger_level = Trace\<rparr>"
  define l1 where "l1 = snd (create_sinks spd p k m l)"
  define l2 where "l2 = snd (spd_register spd ?c l1)"
  define l3 where "l3 = snd (spd_register spd ?f l2)"
  have n: "spd_get spd ''console'' l1 = None" "spd_get spd ''file'' l1 = None"
    using assms(2,3) by (simp_all add: l1_def create_sinks_get)
  then have g2: "spd_get spd ''console'' l2 = Some ?c" "spd_get spd ''file'' l2 = None"
    by (simp_all add: l2_def register_get)
  then have g3: "spd_get spd ''console'' l3 = Some ?c" "spd_get spd ''file'' l3 = Some ?f"
    by (simp_all add: l3_def register_get)
  have "create_sinks spd p k m l = (Inr (cs, fs), l1)" using assms(1) by (simp add: l1_def prod_eq_iff)
  moreover have "spd_register spd ?c l1 = (Inr (), l2)" "spd_register spd ?f l2 = (Inr (), l3)"
    using register_new [of ?c l1] register_new [of ?f l2] n g2
    by (simp_all add: l2_def l3_def prod_eq_iff)
  ultimately have "Logger_Initialize spd p k m l = spd_flush_on spd Err l3"
    by (simp add: Logger_Initialize_def register_loggers_def Let_def)
  with g3 show "Logger_Console spd (Logger_Initialize spd p k m l) = Some ?c"
    "Logger_File spd (Logger_Initialize spd p k m l) = Some ?f"
    by (simp_all add: Logger_Console_def Logger_File_def flush_get)
qed

text \<open>When a sink cannot be created the registry stays as it was.\<close>

lemma Logger_Initialize_failed:
  assumes "fst (create_sinks spd p k m l) = Inl ex"
  shows "spd_get spd n (Logger_Initialize spd p k m l) = spd_get spd n l"
  using assms create_sinks_get [of n p k m l]
  by (cases "create_sinks spd p k m l") (simp add: Logger_Initialize_def cerr_get)

end

section \<open>An instance\<close>

text \<open>A log state with its registry, what was logged, what was printed and whether the log file
  can be opened.\<close>

record spd_state =
  registry :: "logger list"
  logged :: "(string \<times> level \<times> string \<times> fmt_arg list) list"
  printed :: "string list"
  file_opens :: bool

definition sim_get :: "string \<Rightarrow> spd_state \<Rightarrow> logger option" where
  "sim_get n l = find (\<lambda>lg. logger_name lg = n) (registry l)"

definition sim_spd :: "spd_state spd_api" where
  "sim_spd = \<lparr>
     spd_stdout = (\<lambda>l. (Inr (), l)),
     spd_rotating_file = (\<lambda>p k m l. (if file_opens l then Inr () else Inl ''Failed opening file'', l)),
     spd_register = (\<lambda>lg l. if sim_get (logger_name lg) l = None
       then (Inr (), l\<lparr>registry := registry l @ [lg]\<rparr>) else (Inl ''already exists'', l)),
     spd_flush_on = (\<lambda>_ l. l), spd_get = sim_get,
     spd_log = (\<lambda>lg lv f a l. l\<lparr>logged := logged l @ [(logger_name lg, lv, f, a)]\<rparr>),
     spd_cerr = (\<lambda>t l. l\<lparr>printed := printed l @ [t]\<rparr>)\<rparr>"

definition spd0 :: "bool \<Rightarrow> spd_state" where
  "spd0 ok = \<lparr>registry = [], logged = [], printed = [], file_opens = ok\<rparr>"

interpretation sim: spdlog_laws sim_spd
proof (unfold_locales, goal_cases)
  case (3 n lg l)
  have "find P (xs @ [x]) = (case find P xs of None \<Rightarrow> if P x then Some x else None | Some y \<Rightarrow> Some y)"
    for P xs and x :: logger by (induction xs) auto
  then show ?case by (auto simp: sim_spd_def sim_get_def split: option.splits)
qed (auto simp: sim_spd_def sim_get_def)

end
