(* ===== verification/Log_Actions.thy ===== *)
theory Log_Actions
  imports Logger
begin

text \<open>
  Code that writes log statements: an action takes the log state and returns a value with the new
  log state, or it fails with \<open>Null_logger\<close>, or it does not return (\<open>None\<close>). Actions are put
  together with \<open>log_then\<close>, which is monotone, so that loops are partial functions over it. The
  predicate \<open>transparent\<close> relates an action to the same code without its log statements; its rules
  follow the way actions are built.
\<close>

section \<open>Actions\<close>

type_synonym ('l, 'a) action = "'l \<Rightarrow> (log_error + 'a \<times> 'l) option"

definition log_done :: "'a \<Rightarrow> ('l, 'a) action" where
  "log_done a l = Some (Inr (a, l))"

definition log_then :: "('l, 'a) action \<Rightarrow> ('a \<Rightarrow> ('l, 'b) action) \<Rightarrow> ('l, 'b) action" where
  "log_then m k l =
     Option.bind (m l) (\<lambda>r. case r of Inl e \<Rightarrow> Some (Inl e) | Inr (a, l') \<Rightarrow> k a l')"

text \<open>A log statement before the rest, and code without log statements before the rest.\<close>

definition log_stmt :: "('l \<Rightarrow> log_error + 'l) \<Rightarrow> ('l, 'a) action \<Rightarrow> ('l, 'a) action" where
  "log_stmt st m l = (case st l of Inl e \<Rightarrow> Some (Inl e) | Inr l' \<Rightarrow> m l')"

definition log_run :: "'a option \<Rightarrow> ('l, 'a) action" where
  "log_run x l = map_option (\<lambda>a. Inr (a, l)) x"

lemmas action_defs = log_done_def log_then_def log_stmt_def log_run_def

lemma log_then_mono [partial_function_mono]:
  assumes m: "\<And>l. mono_option (\<lambda>f. m f l)" and k: "\<And>a l. mono_option (\<lambda>f. k f a l)"
  shows "mono_option (\<lambda>f. log_then (\<lambda>l. m f l) (\<lambda>a l. k f a l) l)"
proof -
  have "mono_option (\<lambda>f. case r of Inl e \<Rightarrow> Some (Inl e) | Inr (a, l') \<Rightarrow> k f a l')" for r
    by (cases r) (auto intro: k simp: split_beta option.const_mono)
  then show ?thesis unfolding log_then_def by (intro bind_mono m)
qed

lemma log_stmt_mono [partial_function_mono]:
  assumes "\<And>l. mono_option (\<lambda>f. m f l)"
  shows "mono_option (\<lambda>f. log_stmt st (\<lambda>l. m f l) l)"
  unfolding log_stmt_def by (cases "st l") (simp_all add: assms option.const_mono)

lemma log_then_done [simp]: "log_then (log_done a) k = k a"
  by (simp add: action_defs fun_eq_iff)

section \<open>Actions that only log\<close>

named_theorems log_intros \<open>rules that relate an action to the code without log statements\<close>

context spdlog_laws
begin

text \<open>With both loggers registered the action returns what the code returns, leaves both
  registered, and runs for ever if the code does.\<close>

definition transparent :: "('l, 'a) action \<Rightarrow> 'a option \<Rightarrow> bool" where
  "transparent m x \<longleftrightarrow> (\<forall>l. ready l \<longrightarrow>
     (case x of None \<Rightarrow> m l = None | Some a \<Rightarrow> \<exists>l'. m l = Some (Inr (a, l')) \<and> ready l'))"

lemma transparentI:
  assumes "\<And>l r. ready l \<Longrightarrow> m l = Some r \<Longrightarrow> \<exists>a. x = Some a"
    and "\<And>l a. ready l \<Longrightarrow> x = Some a \<Longrightarrow> \<exists>l'. m l = Some (Inr (a, l')) \<and> ready l'"
  shows "transparent m x"
  using assms unfolding transparent_def by (fastforce split: option.split)

lemma transparent_Some:
  "transparent m (Some a) \<Longrightarrow> ready l \<Longrightarrow> \<exists>l'. m l = Some (Inr (a, l')) \<and> ready l'"
  by (simp add: transparent_def)

lemma transparent_cases:
  assumes "transparent m x" and "ready l"
  obtains "x = None" and "m l = None"
  | a l' where "x = Some a" and "m l = Some (Inr (a, l'))" and "ready l'"
  using assms unfolding transparent_def by (cases x) auto

lemma transparent_erase:
  assumes "transparent m x" and "ready l"
  shows "map_option (map_sum id fst) (m l) = map_option Inr x"
  by (rule transparent_cases [OF assms]) auto

lemma transparent_done [log_intros]: "transparent (log_done a) (Some a)"
  by (simp add: transparent_def log_done_def)

lemma transparent_run [log_intros]: "transparent (log_run x) x"
  by (simp add: transparent_def log_run_def split: option.split)

text \<open>One statement leads to another ready log state, from which the rest goes on.\<close>

lemma transparent_step:
  assumes "\<And>l. ready l \<Longrightarrow> \<exists>l'. ready l' \<and> m l = m' l'" and "transparent m' x"
  shows "transparent m x"
  unfolding transparent_def
proof (intro allI impI)
  fix l assume "ready l"
  then obtain l' where "ready l'" "m l = m' l'" using assms(1) by blast
  with assms(2) show "case x of None \<Rightarrow> m l = None | Some a \<Rightarrow> \<exists>l'. m l = Some (Inr (a, l')) \<and> ready l'"
    by (cases x) (simp_all add: transparent_def)
qed

lemma LOG_step: "ready l \<Longrightarrow> \<exists>l'. ready l' \<and> log_stmt (LOG spd lv fmt args) m l = m l'"
  by (metis LOG_ready log_stmt_def old.sum.simps(6))

lemma FLOG_step: "ready l \<Longrightarrow> \<exists>l'. ready l' \<and> log_stmt (FLOG spd lv fmt args) m l = m l'"
  by (metis FLOG_ready log_stmt_def old.sum.simps(6))

lemma then_step:
  assumes "transparent m (Some a)" and "ready l"
  shows "\<exists>l'. ready l' \<and> log_then m k l = k a l'"
  using transparent_Some [OF assms] by (auto simp: log_then_def)

lemma transparent_LOG [log_intros]:
  "transparent m x \<Longrightarrow> transparent (log_stmt (LOG spd lv fmt args) m) x"
  by (rule transparent_step [OF LOG_step])

lemma transparent_FLOG [log_intros]:
  "transparent m x \<Longrightarrow> transparent (log_stmt (FLOG spd lv fmt args) m) x"
  by (rule transparent_step [OF FLOG_step])

lemma transparent_then:
  assumes "transparent m x" and "\<And>a. x = Some a \<Longrightarrow> transparent (k a) (g a)"
  shows "transparent (log_then m k) (Option.bind x g)"
proof (cases x)
  case None
  with assms(1) show ?thesis by (simp add: transparent_def log_then_def)
next
  case (Some a)
  have "transparent (log_then m k) (g a)"
  proof (rule transparent_step)
    show "\<exists>l'. ready l' \<and> log_then m k l = k a l'" if "ready l" for l
      using then_step [OF assms(1) [unfolded Some] that] .
  qed (rule assms(2) [OF Some])
  with Some show ?thesis by simp
qed

text \<open>The same rule for code that always returns.\<close>

lemma transparent_then_Some [log_intros]:
  assumes "transparent m (Some a)" and "transparent (k a) x"
  shows "transparent (log_then m k) x"
  using transparent_then [OF assms(1), of k "\<lambda>_. x"] assms(2) by simp

lemma transparent_if [log_intros]:
  "(c \<Longrightarrow> transparent m x) \<Longrightarrow> (\<not> c \<Longrightarrow> transparent m' y) \<Longrightarrow>
   transparent (if c then m else m') (if c then x else y)"
  by simp

end

end
