(* ===== verification/Log_Records.thy ===== *)
theory Log_Records
  imports Log_Actions
begin

text \<open>
  What actions write into the log. The locale \<open>spdlog_records\<close> adds to the contract of the library
  that a logger whose level lets everything pass writes each statement, after what it has written
  before; \<open>writes\<close> gives the exact list of records of an action that returns.
\<close>

section \<open>Records\<close>

type_synonym log_record = "string \<times> level \<times> string \<times> fmt_arg list"

locale spdlog_records = spdlog_laws spd
  for spd :: "('l, 'y) spd_api_scheme" +
  fixes records :: "'l \<Rightarrow> log_record list"
  assumes get_name: "spd_get spd n l = Some lg \<Longrightarrow> logger_name lg = n"
    and log_records: "logger_level lg = Trace \<Longrightarrow>
      records (spd_log spd lg lv fmt args l) = records l @ [(logger_name lg, lv, fmt, args)]"
begin

text \<open>Both loggers are registered and let every level pass.\<close>

definition recording :: "'l \<Rightarrow> bool" where
  "recording l \<longleftrightarrow> (\<exists>c f. Logger_Console spd l = Some c \<and> logger_level c = Trace \<and>
     Logger_File spd l = Some f \<and> logger_level f = Trace)"

definition writes :: "('l, 'a) action \<Rightarrow> 'a \<Rightarrow> log_record list \<Rightarrow> bool" where
  "writes m a recs \<longleftrightarrow> (\<forall>l. recording l \<longrightarrow>
     (\<exists>l'. m l = Some (Inr (a, l')) \<and> recording l' \<and> records l' = records l @ recs))"

lemma recording_ready: "recording l \<Longrightarrow> ready l"
  by (auto simp: recording_def ready_def)

lemma writes_done [intro]: "writes (log_done a) a []"
  by (simp add: writes_def log_done_def)

lemma writes_run: "x = Some a \<Longrightarrow> writes (log_run x) a []"
  by (simp add: writes_def log_run_def)

lemma LOG_records:
  assumes "recording l"
  shows "\<exists>l'. LOG spd lv fmt args l = Inr l' \<and> recording l' \<and> records l' = records l @ [(''console'', lv, fmt, args)]"
  using assms by (auto simp: recording_def LOG_def Logger_Console_def Logger_File_def log_get log_records get_name)

lemma FLOG_records:
  assumes "recording l"
  shows "\<exists>l'. FLOG spd lv fmt args l = Inr l' \<and> recording l' \<and> records l' = records l @ [(''file'', lv, fmt, args)]"
  using assms by (auto simp: recording_def FLOG_def Logger_Console_def Logger_File_def log_get log_records get_name)

lemma writes_LOG:
  assumes "writes m a recs"
  shows "writes (log_stmt (LOG spd lv fmt args) m) a ((''console'', lv, fmt, args) # recs)"
  unfolding writes_def
proof (intro allI impI)
  fix l assume "recording l"
  then obtain l1 where l1: "LOG spd lv fmt args l = Inr l1" "recording l1"
    "records l1 = records l @ [(''console'', lv, fmt, args)]" using LOG_records by blast
  with assms show "\<exists>l'. log_stmt (LOG spd lv fmt args) m l = Some (Inr (a, l')) \<and> recording l' \<and>
      records l' = records l @ (''console'', lv, fmt, args) # recs"
    by (auto simp: writes_def log_stmt_def)
qed

lemma writes_FLOG:
  assumes "writes m a recs"
  shows "writes (log_stmt (FLOG spd lv fmt args) m) a ((''file'', lv, fmt, args) # recs)"
  unfolding writes_def
proof (intro allI impI)
  fix l assume "recording l"
  then obtain l1 where l1: "FLOG spd lv fmt args l = Inr l1" "recording l1"
    "records l1 = records l @ [(''file'', lv, fmt, args)]" using FLOG_records by blast
  with assms show "\<exists>l'. log_stmt (FLOG spd lv fmt args) m l = Some (Inr (a, l')) \<and> recording l' \<and>
      records l' = records l @ (''file'', lv, fmt, args) # recs"
    by (auto simp: writes_def log_stmt_def)
qed

lemma writes_then:
  assumes "writes m a recs1" and "writes (k a) b recs2"
  shows "writes (log_then m k) b (recs1 @ recs2)"
  unfolding writes_def
proof (intro allI impI)
  fix l assume "recording l"
  with assms(1) obtain l1 where l1: "m l = Some (Inr (a, l1))" "recording l1" "records l1 = records l @ recs1"
    by (auto simp: writes_def)
  with assms(2) show "\<exists>l'. log_then m k l = Some (Inr (b, l')) \<and> recording l' \<and>
      records l' = records l @ recs1 @ recs2"
    by (auto simp: writes_def log_then_def)
qed

lemma writes_then_eq:
  "writes m a recs1 \<Longrightarrow> recs = recs1 @ recs2 \<Longrightarrow> writes (k a) b recs2 \<Longrightarrow> writes (log_then m k) b recs"
  by (simp add: writes_then)

lemmas writes_intros = writes_done writes_LOG writes_FLOG

end

interpretation sim_rec: spdlog_records sim_spd logged
  by unfold_locales (auto simp: sim_spd_def sim_get_def find_Some_iff)

end
