(* ===== verification/Node_Logs.thy ===== *)
theory Node_Logs
  imports Log_Records Node_Loop
begin

text \<open>
  The node's operations with all their log statements (\<^verbatim>\<open>tcp_socket.cpp\<close>, \<^verbatim>\<open>node.cpp\<close>), as
  actions over the log state, each related to the operation without log statements by
  \<open>transparent\<close>.
\<close>

section \<open>The socket\<close>

definition connect_to_server_logging ::
    "platform \<Rightarrow> ('w, 'x) client_api_scheme \<Rightarrow> ('l, 'y) spd_api_scheme \<Rightarrow> tcp_socket \<Rightarrow> 'w \<Rightarrow>
     ('l, int \<times> tcp_socket \<times> 'w) action" where
  "connect_to_server_logging pf api spd ts w0 =
     (case (if pf = Win32 then api_startup api w0 else (0, w0)) of (err, w1) \<Rightarrow>
      if err \<noteq> 0 then log_stmt (LOG spd Err ''WSAStartup failed'' []) (log_done (1, ts, w1))
      else case api_socket api w1 of (s, w2) \<Rightarrow>
      let ts1 = ts\<lparr>tcp_sock := s\<rparr> in
      if s = -1 then log_stmt (LOG spd Err ''Socket creation failed'' []) (log_done (1, ts1, w2))
      else
        let addr = (api_inet_pton api (server_ip ts1), htons (server_port ts1));
            ts2 = ts1\<lparr>server_addr := addr\<rparr>
        in case api_connect api s (fst addr) (snd addr) w2 of (r, w3) \<Rightarrow>
           if r = -1 then
             log_stmt (LOG spd Err ''Connection failed.'' []) (log_done (1, ts2, closeSocket pf api ts2 w3))
           else
             log_stmt (LOG spd Info ''Connected to Server : [{}:{}]''
               [Fmt_str (server_ip ts2), Fmt_int (server_port ts2)])
             (log_done (NO_ERR, ts2, w3)))"

definition recvMessage_logging ::
    "('w, 'x) sock_api_scheme \<Rightarrow> ('l, 'y) spd_api_scheme \<Rightarrow> tcp_socket \<Rightarrow> nat \<Rightarrow> 'w \<Rightarrow>
     ('l, int \<times> int \<times> tcp_socket \<times> 'w) action" where
  "recvMessage_logging api spd ts needed_bytes w =
     (let rest = (\<lambda>needed.
        case api_recv api (tcp_sock ts) needed w of (bytes_received, bs, w1) \<Rightarrow>
        let ts1 = ts\<lparr>tcp_buffer := overwrite (tcp_buffer ts) 0 bs\<rparr> in
        if bytes_received \<le> 0 then
          log_stmt (LOG spd Err (if bytes_received = 0 then ''Connection closed by server'' else ''Receive failed'') [])
          (log_done (1, bytes_received, ts1, w1))
        else
          let ts2 = ts1\<lparr>tcp_buffer := (tcp_buffer ts1)[nat bytes_received := NUL]\<rparr> in
          log_stmt (LOG spd Info ''Received MSG : {}'' [Fmt_str (c_str (tcp_buffer ts2))])
          (log_done (NO_ERR, bytes_received, ts2, w1)))
      in if needed_bytes \<ge> BUFFER_SIZE - 1 then
           log_stmt (LOG spd Warn ''needed_bytes is greater than tcp buffer size'' []) (rest (BUFFER_SIZE - 1))
         else rest needed_bytes)"

definition sendMessage_logging ::
    "('w, 'x) sock_api_scheme \<Rightarrow> ('l, 'y) spd_api_scheme \<Rightarrow> tcp_socket \<Rightarrow> string \<Rightarrow> 'w \<Rightarrow>
     ('l, int \<times> 'w) action" where
  "sendMessage_logging api spd ts message w =
     (case api_send api (tcp_sock ts) message w of (bytes_sent, w1) \<Rightarrow>
      let sent = log_stmt (LOG spd Trace ''Sent MSG : {}'' [Fmt_str message]) (log_done (bytes_sent, w1)) in
      if bytes_sent = -1 then log_stmt (LOG spd Err ''Send reply failed.'' []) sent else sent)"

section \<open>The node\<close>

function send_loop_logging ::
    "('w, 'x) sock_api_scheme \<Rightarrow> ('l, 'y) spd_api_scheme \<Rightarrow> tcp_socket \<Rightarrow> string \<Rightarrow> int \<Rightarrow> nat \<Rightarrow> 'w \<Rightarrow>
     ('l, int \<times> 'w) action" where
  "send_loop_logging api spd ts msg byte_send retry_count w =
     (if byte_send \<le> 0 \<and> retry_count < MAX_RETRY then
        log_then (sendMessage_logging api spd ts msg w) (\<lambda>(byte_send', w').
          send_loop_logging api spd ts msg byte_send' (retry_count + 1) w')
      else log_done (byte_send, w))"
  by pat_completeness auto
termination
  by (relation "measure (\<lambda>(api, spd, ts, msg, byte_send, retry_count, w). MAX_RETRY - retry_count)") auto

declare send_loop_logging.simps [simp del]

definition send_message_logging ::
    "('w, 'x) sock_api_scheme \<Rightarrow> ('l, 'y) spd_api_scheme \<Rightarrow> node \<Rightarrow> string \<Rightarrow> 'w \<Rightarrow> ('l, int \<times> 'w) action" where
  "send_message_logging api spd nd msg w =
     log_then (send_loop_logging api spd (node_tcp nd) msg 0 0 w) (\<lambda>(byte_send, w').
       if byte_send > 0 then log_done (NO_ERR, w') else log_done (1, w'))"

definition subscribe_to_router_logging ::
    "('w, 'x) sock_api_scheme \<Rightarrow> ('l, 'y) spd_api_scheme \<Rightarrow> node \<Rightarrow> 'w \<Rightarrow> ('l, int \<times> 'w) action" where
  "subscribe_to_router_logging api spd nd w =
     send_message_logging api spd nd (buildIdMessage (node_id nd)) w"

definition send_initiator_message_logging ::
    "('w, 'x) sock_api_scheme \<Rightarrow> ('l, 'y) spd_api_scheme \<Rightarrow> node \<Rightarrow> 'w \<Rightarrow> ('l, int \<times> 'w) action" where
  "send_initiator_message_logging api spd nd w =
     (if initiate_messaging nd
      then send_message_logging api spd nd (buildFirstMessage (node_id nd) (node_dstId nd)) w
      else log_done (0, w))"

text \<open>One turn of the inner loop: \<open>Inl\<close> leaves the loop, \<open>Inr\<close> goes on.\<close>

definition receive_turn_logging ::
    "platform \<Rightarrow> ('w, 'x) sock_api_scheme \<Rightarrow> ('l, 'y) spd_api_scheme \<Rightarrow> node \<Rightarrow> 'w \<Rightarrow>
     ('l, ((cxx_exn \<times> node \<times> 'w) + (node \<times> 'w)) + (node \<times> 'w)) action" where
  "receive_turn_logging pf api spd nd w =
     log_then (recvMessage_logging api spd (node_tcp nd) MESSAGE_LENGTH w)
       (\<lambda>(err, recv_bytes, ts, w1).
          let nd1 = nd\<lparr>node_tcp := ts\<rparr> in
          if err \<noteq> NO_ERR then log_done (Inl (Inr (nd1, closeConnection pf api nd1 w1)))
          else if recv_bytes = int MESSAGE_LENGTH then
            (case processMessage (node_id nd1) (getBuffer ts) recv_bytes of
               Inl e \<Rightarrow> log_done (Inl (Inl (e, nd1, w1)))
             | Inr reply \<Rightarrow>
                 log_then (send_message_logging api spd nd1 reply w1) (\<lambda>(err2, w2).
                   if err2 = NO_ERR then log_done (Inr (nd1, w2)) else log_done (Inl (Inr (nd1, w2)))))
          else
            log_stmt (LOG spd Warn ''Received MSG Len is invalid. Len = {}'' [Fmt_int recv_bytes])
            (log_done (Inr (nd1, w1))))"

partial_function (option) receive_loop_logging ::
    "platform \<Rightarrow> ('w, 'x) sock_api_scheme \<Rightarrow> ('l, 'y) spd_api_scheme \<Rightarrow> node \<Rightarrow> 'w \<Rightarrow> 'l \<Rightarrow>
     (log_error + ((cxx_exn \<times> node \<times> 'w) + (node \<times> 'w)) \<times> 'l) option" where
  "receive_loop_logging pf api spd nd w l =
     log_then (receive_turn_logging pf api spd nd w)
       (\<lambda>res l. case res of
          Inl x \<Rightarrow> log_done x l
        | Inr (nd1, w1) \<Rightarrow> receive_loop_logging pf api spd nd1 w1 l) l"

definition start_turn_logging ::
    "platform \<Rightarrow> ('w, 'x) client_api_scheme \<Rightarrow> ('l, 'y) spd_api_scheme \<Rightarrow> node \<Rightarrow> 'w \<Rightarrow>
     ('l, (cxx_exn \<times> node \<times> 'w) + (node \<times> 'w)) action" where
  "start_turn_logging pf api spd nd w =
     log_then (connect_to_server_logging pf api spd (node_tcp nd) w) (\<lambda>(errcode, ts, w1).
       let nd1 = nd\<lparr>node_tcp := ts\<rparr> in
       if errcode = NO_ERR then
         log_then (subscribe_to_router_logging api spd nd1 w1) (\<lambda>(err, w2).
           if err \<noteq> NO_ERR then log_done (Inr (nd1, closeConnection pf api nd1 w2))
           else log_then (send_initiator_message_logging api spd nd1 w2) (\<lambda>(err, w3).
             if err \<noteq> NO_ERR then log_done (Inr (nd1, closeConnection pf api nd1 w3))
             else receive_loop_logging pf api spd nd1 w3))
       else
         let w2 = sleep pf api 5000 w1
         in log_stmt (LOG spd Warn ''retry connection to router...'' []) (log_done (Inr (nd1, w2))))"

partial_function (option) Node_start_logging ::
    "platform \<Rightarrow> ('w, 'x) client_api_scheme \<Rightarrow> ('l, 'y) spd_api_scheme \<Rightarrow> node \<Rightarrow> 'w \<Rightarrow> 'l \<Rightarrow>
     (log_error + (cxx_exn \<times> node \<times> 'w) \<times> 'l) option" where
  "Node_start_logging pf api spd nd w l =
     log_then (start_turn_logging pf api spd nd w)
       (\<lambda>res l. case res of
          Inl e \<Rightarrow> log_done e l
        | Inr (nd1, w1) \<Rightarrow> Node_start_logging pf api spd nd1 w1 l) l"

section \<open>Without the log statements\<close>

text \<open>One turn of the inner loop without log statements.\<close>

definition receive_turn ::
    "platform \<Rightarrow> ('w, 'x) sock_api_scheme \<Rightarrow> node \<Rightarrow> 'w \<Rightarrow>
     ((cxx_exn \<times> node \<times> 'w) + (node \<times> 'w)) + (node \<times> 'w)" where
  "receive_turn pf api nd w =
     (case recvMessage api (node_tcp nd) MESSAGE_LENGTH w of (err, recv_bytes, ts, w1) \<Rightarrow>
      let nd1 = nd\<lparr>node_tcp := ts\<rparr> in
      if err \<noteq> NO_ERR then Inl (Inr (nd1, closeConnection pf api nd1 w1))
      else if recv_bytes = int MESSAGE_LENGTH then
        (case processMessage (node_id nd1) (getBuffer ts) recv_bytes of
           Inl e \<Rightarrow> Inl (Inl (e, nd1, w1))
         | Inr reply \<Rightarrow>
             (case send_message api nd1 reply w1 of (err2, w2) \<Rightarrow>
                if err2 = NO_ERR then Inr (nd1, w2) else Inl (Inr (nd1, w2))))
      else Inr (nd1, w1))"

lemma receive_loop_body:
  "(case recvMessage api (node_tcp nd) MESSAGE_LENGTH w of (err, recv_bytes, ts, w1) \<Rightarrow>
      let nd1 = nd\<lparr>node_tcp := ts\<rparr> in
      if err \<noteq> NO_ERR then Some (Inr (nd1, closeConnection pf api nd1 w1))
      else if recv_bytes = int MESSAGE_LENGTH then
        (case processMessage (node_id nd1) (getBuffer ts) recv_bytes of
           Inl e \<Rightarrow> Some (Inl (e, nd1, w1))
         | Inr reply \<Rightarrow>
             (case send_message api nd1 reply w1 of (err2, w2) \<Rightarrow>
                if err2 = NO_ERR then loop pf api nd1 w2 else Some (Inr (nd1, w2))))
      else loop pf api nd1 w1) =
   (case receive_turn pf api nd w of Inl x \<Rightarrow> Some x | Inr (nd1, w1) \<Rightarrow> loop pf api nd1 w1)"
  by (auto simp: receive_turn_def Let_def split: prod.split sum.split)

lemmas receive_loop_turn = receive_loop.simps [unfolded receive_loop_body]

context spdlog_laws
begin

lemma connect_to_server_transparent:
  "transparent (connect_to_server_logging pf api spd ts w) (Some (connect_to_server pf api ts w))"
  by (auto simp: connect_to_server_logging_def connect_to_server_def Let_def intro!: log_intros split: prod.split)

lemma recvMessage_transparent:
  "transparent (recvMessage_logging api spd ts n w) (Some (recvMessage api ts n w))"
  by (auto simp: recvMessage_logging_def recvMessage_def Let_def intro!: log_intros split: prod.split)

lemma sendMessage_transparent:
  "transparent (sendMessage_logging api spd ts m w) (Some (sendMessage api ts m w))"
  by (auto simp: sendMessage_logging_def sendMessage_def Let_def intro!: log_intros split: prod.split)

lemma send_loop_transparent:
  "transparent (send_loop_logging api spd ts m b k w) (Some (send_loop api ts m b k w))"
proof (induction api ts m b k w rule: send_loop.induct)
  case (1 api ts m b k w)
  show ?case
  proof (cases "b \<le> 0 \<and> k < MAX_RETRY")
    case True
    have "transparent (case sendMessage api ts m w of (b', w') \<Rightarrow> send_loop_logging api spd ts m b' (k + 1) w')
        (Some (send_loop api ts m b k w))"
      using 1 [OF True] True by (auto simp: send_loop.simps [of api ts m b k w] split: prod.split)
    with True show ?thesis
      by (subst send_loop_logging.simps) (auto intro: transparent_then_Some [OF sendMessage_transparent])
  qed (auto simp: send_loop.simps [of api ts m b k w] send_loop_logging.simps [of api spd ts m b k w]
      intro: transparent_done)
qed

lemma send_message_transparent:
  "transparent (send_message_logging api spd nd m w) (Some (send_message api nd m w))"
  unfolding send_message_logging_def send_message_def
  by (rule transparent_then_Some [OF send_loop_transparent]) (auto intro: log_intros split: prod.split)

lemma subscribe_transparent:
  "transparent (subscribe_to_router_logging api spd nd w) (Some (subscribe_to_router api nd w))"
  by (simp add: subscribe_to_router_logging_def subscribe_to_router_def send_message_transparent)

lemma initiator_transparent:
  "transparent (send_initiator_message_logging api spd nd w) (Some (send_initiator_message api nd w))"
  by (simp add: send_initiator_message_logging_def send_initiator_message_def send_message_transparent
      transparent_done)

lemma receive_turn_transparent:
  "transparent (receive_turn_logging pf api spd nd w) (Some (receive_turn pf api nd w))"
  unfolding receive_turn_logging_def receive_turn_def
  by (rule transparent_then_Some [OF recvMessage_transparent])
    (auto simp: Let_def intro!: log_intros transparent_then_Some [OF send_message_transparent]
      split: prod.split sum.split)

text \<open>The inner and the outer loop, each in both directions.\<close>

lemma receive_loop_returns:
  assumes "receive_loop_logging pf api spd nd w l = Some res" and "ready l"
  shows "\<exists>x. receive_loop pf api nd w = Some x"
proof (rule receive_loop_logging.raw_induct [OF _ assms(1), where
      P = "\<lambda>pf api spd' nd w l res. spd' = spd \<longrightarrow> ready l \<longrightarrow> (\<exists>x. receive_loop pf api nd w = Some x)",
      THEN mp, THEN mp, OF _ refl assms(2)], intro impI)
  fix F pf api spd' nd w l res
  assume IH: "\<And>pf api spd' nd w l res. F pf api spd' nd w l = Some res \<Longrightarrow>
      spd' = spd \<longrightarrow> ready l \<longrightarrow> (\<exists>x. receive_loop pf api nd w = Some x)"
    and run: "log_then (receive_turn_logging pf api spd' nd w) (\<lambda>res l. case res of Inl x \<Rightarrow> log_done x l
      | Inr (nd1, w1) \<Rightarrow> F pf api spd' nd1 w1 l) l = Some res"
    and spd: "spd' = spd" and "ready l"
  show "\<exists>x. receive_loop pf api nd w = Some x"
    using run unfolding spd
    by (cases rule: transparent_cases [OF receive_turn_transparent [of pf api nd w] \<open>ready l\<close>])
      (auto simp: log_then_def receive_loop_turn [of pf api nd w] split: sum.splits dest!: IH)
qed

lemma receive_loop_logs:
  assumes "receive_loop pf api nd w = Some x" and "ready l"
  shows "\<exists>l'. receive_loop_logging pf api spd nd w l = Some (Inr (x, l')) \<and> ready l'"
proof (rule receive_loop.raw_induct [OF _ assms(1), where P = "\<lambda>pf api nd w x. \<forall>l. ready l \<longrightarrow>
      (\<exists>l'. receive_loop_logging pf api spd nd w l = Some (Inr (x, l')) \<and> ready l')",
      THEN spec, THEN mp, OF _ assms(2)], unfold receive_loop_body, intro allI impI)
  fix F pf api nd w x l
  assume IH: "\<And>pf api nd w x. F pf api nd w = Some x \<Longrightarrow> \<forall>l. ready l \<longrightarrow>
      (\<exists>l'. receive_loop_logging pf api spd nd w l = Some (Inr (x, l')) \<and> ready l')"
    and run: "(case receive_turn pf api nd w of Inl x \<Rightarrow> Some x | Inr (nd1, w1) \<Rightarrow> F pf api nd1 w1) = Some x"
    and "ready l"
  show "\<exists>l'. receive_loop_logging pf api spd nd w l = Some (Inr (x, l')) \<and> ready l'"
    using run
    by (cases rule: transparent_cases [OF receive_turn_transparent [of pf api nd w] \<open>ready l\<close>])
      (auto simp: log_then_def log_done_def receive_loop_logging.simps [of pf api spd nd w]
        split: sum.splits dest!: IH)
qed

lemma receive_loop_transparent:
  "transparent (receive_loop_logging pf api spd nd w) (receive_loop pf api nd w)"
  by (rule transparentI) (auto dest: receive_loop_returns receive_loop_logs)

lemma start_turn_transparent:
  "transparent (start_turn_logging pf api spd nd w) (start_turn pf api nd w)"
  unfolding start_turn_logging_def start_turn_def
  by (rule transparent_then_Some [OF connect_to_server_transparent])
    (auto simp: Let_def receive_loop_transparent intro!: log_intros
      transparent_then_Some [OF subscribe_transparent] transparent_then_Some [OF initiator_transparent]
      split: prod.split)

lemma Node_start_returns:
  assumes "Node_start_logging pf api spd nd w l = Some res" and "ready l"
  shows "\<exists>x. Node_start pf api nd w = Some x"
proof (rule Node_start_logging.raw_induct [OF _ assms(1), where
      P = "\<lambda>pf api spd' nd w l res. spd' = spd \<longrightarrow> ready l \<longrightarrow> (\<exists>x. Node_start pf api nd w = Some x)",
      THEN mp, THEN mp, OF _ refl assms(2)], intro impI)
  fix F pf api spd' nd w l res
  assume IH: "\<And>pf api spd' nd w l res. F pf api spd' nd w l = Some res \<Longrightarrow>
      spd' = spd \<longrightarrow> ready l \<longrightarrow> (\<exists>x. Node_start pf api nd w = Some x)"
    and run: "log_then (start_turn_logging pf api spd' nd w) (\<lambda>res l. case res of Inl x \<Rightarrow> log_done x l
      | Inr (nd1, w1) \<Rightarrow> F pf api spd' nd1 w1 l) l = Some res"
    and spd: "spd' = spd" and "ready l"
  show "\<exists>x. Node_start pf api nd w = Some x"
    using run unfolding spd
    by (cases rule: transparent_cases [OF start_turn_transparent [of pf api nd w] \<open>ready l\<close>])
      (auto simp: log_then_def Node_start.simps [of pf api nd w] split: sum.splits dest!: IH)
qed

lemma Node_start_logs:
  assumes "Node_start pf api nd w = Some x" and "ready l"
  shows "\<exists>l'. Node_start_logging pf api spd nd w l = Some (Inr (x, l')) \<and> ready l'"
proof (rule Node_start.raw_induct [OF _ assms(1), where P = "\<lambda>pf api nd w x. \<forall>l. ready l \<longrightarrow>
      (\<exists>l'. Node_start_logging pf api spd nd w l = Some (Inr (x, l')) \<and> ready l')",
      THEN spec, THEN mp, OF _ assms(2)], intro allI impI)
  fix F pf api nd w x l
  assume IH: "\<And>pf api nd w x. F pf api nd w = Some x \<Longrightarrow> \<forall>l. ready l \<longrightarrow>
      (\<exists>l'. Node_start_logging pf api spd nd w l = Some (Inr (x, l')) \<and> ready l')"
    and run: "Option.bind (start_turn pf api nd w)
      (\<lambda>res. case res of Inl e \<Rightarrow> Some e | Inr (nd1, w1) \<Rightarrow> F pf api nd1 w1) = Some x"
    and "ready l"
  show "\<exists>l'. Node_start_logging pf api spd nd w l = Some (Inr (x, l')) \<and> ready l'"
    using run
    by (cases rule: transparent_cases [OF start_turn_transparent [of pf api nd w] \<open>ready l\<close>])
      (auto simp: log_then_def log_done_def Node_start_logging.simps [of pf api spd nd w]
        split: sum.splits dest!: IH)
qed

lemma Node_start_transparent:
  "transparent (Node_start_logging pf api spd nd w) (Node_start pf api nd w)"
  by (rule transparentI) (auto dest: Node_start_returns Node_start_logs)

end

section \<open>What the node's log tells\<close>

context spdlog_records
begin

text \<open>A message is recorded as sent whether it was sent or not; after a failure both statements are
  written.\<close>

lemma sendMessage_writes:
  assumes "api_send api (tcp_sock ts) m w = (k, w1)"
  shows "writes (sendMessage_logging api spd ts m w) (sendMessage api ts m w)
    ((if k = -1 then [(''console'', Err, ''Send reply failed.'', [])] else []) @
     [(''console'', Trace, ''Sent MSG : {}'', [Fmt_str m])])"
  using assms by (auto simp: sendMessage_logging_def sendMessage_def Let_def intro!: writes_intros)

text \<open>The text of a received message that is recorded is the text of the bytes that arrived, not what
  the buffer held before.\<close>

lemma recvMessage_writes:
  assumes "recv_api api" and "length (tcp_buffer ts) = BUFFER_SIZE" and "needed < BUFFER_SIZE - 1"
    and "api_recv api (tcp_sock ts) needed w = (k, bs, w1)" and "0 < k"
  shows "writes (recvMessage_logging api spd ts needed w) (recvMessage api ts needed w)
    [(''console'', Info, ''Received MSG : {}'', [Fmt_str (c_str bs)])]"
proof -
  let ?buf = "bs @ NUL # drop (Suc (length bs)) (tcp_buffer ts)"
  have "recvMessage api ts needed w = (NO_ERR, k, ts\<lparr>tcp_buffer := ?buf\<rparr>, w1)"
    by (rule recv_api.recvMessage_data [OF assms])
  moreover have "(overwrite (tcp_buffer ts) 0 bs)[nat k := NUL] = ?buf"
    using calculation assms(3-5) by (simp add: recvMessage_def Let_def) (metis tcp_socket.select_convs(5) tcp_socket.surjective tcp_socket.update_convs(5))
  moreover have "c_str ?buf = c_str bs" by (simp add: c_str_terminated)
  ultimately show ?thesis
    using assms(3-5) by (auto simp: recvMessage_logging_def Let_def intro!: writes_intros)
qed

end

end
