(* ===== verification/Router_Logs.thy ===== *)
theory Router_Logs
  imports Log_Actions Router_Handlers
begin

text \<open>
  The router's operations with all their log statements (\<^verbatim>\<open>sessions.cpp\<close>, \<^verbatim>\<open>tcpserver.cpp\<close>,
  \<^verbatim>\<open>router.cpp\<close>), as actions over the log state. Each one is related to the operation without
  log statements by \<open>transparent\<close>. The number that a system's error code has is the argument
  \<open>errnum\<close>; it differs between the platforms and appears in log messages only. A \<^verbatim>\<open>char*\<close> that is
  logged is printed up to its first NUL, which is \<open>c_str\<close>.
\<close>

section \<open>The tables and the socket layer\<close>

definition add_node_logging ::
    "('l, 'y) spd_api_scheme \<Rightarrow> sock \<Rightarrow> int \<Rightarrow> sessions \<Rightarrow> ('l, sessions) action" where
  "add_node_logging spd client_socket node_id st =
     (case sessions_by_socket st client_socket of
        None \<Rightarrow>
          log_stmt (LOG spd Err ''Session terminated befoe id handshaking. id = {}'' [Fmt_int node_id])
          (log_done st)
      | Some r \<Rightarrow>
          if node_id \<ge> MAX_CLIENTS_COUNT then
            log_stmt (LOG spd Err ''node is invalid. id = {}'' [Fmt_int node_id])
            (log_done st)
          else
            let update = log_done (st\<lparr>store := (store st)(r := map_option (set_id node_id) (store st r)),
                                      sessions_by_id := (sessions_by_id st)(node_id \<mapsto> r)\<rparr>)
            in if sessions_by_id st node_id \<noteq> None
               then log_stmt (LOG spd Warn ''Nodeid Exist, restart connection , ID : {}'' [Fmt_int node_id]) update
               else update)"

definition start_tcp_server_logging ::
    "platform \<Rightarrow> ('w, 'f, 'x) server_api_scheme \<Rightarrow> ('l, 'y) spd_api_scheme \<Rightarrow> int \<Rightarrow> 'w \<Rightarrow>
     ('l, int \<times> 'w) action" where
  "start_tcp_server_logging pf api spd port w0 =
     (case (if pf = Win32 then api_startup api w0 else (0, w0)) of (err, w1) \<Rightarrow>
      if err \<noteq> 0 then log_stmt (LOG spd Err ''WSAStartup failed'' []) (log_done (SOCKET_ERROR, w1))
      else case api_socket api w1 of (server_socket, w2) \<Rightarrow>
      if server_socket = -1
      then log_stmt (LOG spd Err ''Socket creation failed'' []) (log_done (SOCKET_ERROR, w2))
      else case api_bind api server_socket (api_inet_pton api ''127.0.0.1'') (htons port) w2 of
             (bindStatus, w3) \<Rightarrow>
      if bindStatus < 0
      then log_stmt (LOG spd Err ''Error binding socket to local address'' []) (log_done (SOCKET_ERROR, w3))
      else case api_listen api server_socket 5 w3 of (_, w4) \<Rightarrow> log_done (server_socket, w4))"

definition send_to_client_logging ::
    "('w, 'x) sock_api_scheme \<Rightarrow> ('l, 'y) spd_api_scheme \<Rightarrow> (errcode \<Rightarrow> int) \<Rightarrow> sock \<Rightarrow> string \<Rightarrow> 'w \<Rightarrow>
     ('l, int \<times> 'w) action" where
  "send_to_client_logging api spd errnum client_socket msg w =
     (case api_send api client_socket msg w of (bytesSent, w1) \<Rightarrow>
        if bytesSent \<noteq> int (length msg) then
          let err = errnum (api_errno api w1)
          in log_stmt (LOG spd Err ''Error on send. err code : {}'' [Fmt_int err])
             (log_done (SOCKET_ERROR, w1))
        else log_done (bytesSent, w1))"

section \<open>The handlers\<close>

definition handle_handshake_logging ::
    "platform \<Rightarrow> ('w, 'x) sock_api_scheme \<Rightarrow> ('l, 'y) spd_api_scheme \<Rightarrow> sock \<Rightarrow> buffer \<Rightarrow> 'w router \<Rightarrow>
     ('l, (int \<times> buffer \<times> 'w router) outcome) action" where
  "handle_handshake_logging pf api spd ready_read_socket recv_buffer R =
     log_then (log_run (read_async pf api ready_read_socket recv_buffer ID_MESSAGE_SIZE (world R)))
       (\<lambda>(bytes_read, buf, w).
          let R1 = R\<lparr>world := w\<rparr> in
          if bytes_read = int ID_MESSAGE_SIZE then
            let buf1 = buf[ID_MESSAGE_SIZE := NUL] in
            (case extract_src_id buf1 bytes_read of
               Inl e \<Rightarrow> log_done (Inl e)
             | Inr src_id \<Rightarrow>
                 log_then (add_node_logging spd ready_read_socket src_id (sess R1)) (\<lambda>st.
                 log_stmt (LOG spd Info ''Initiate a node with ID : {}'' [Fmt_int src_id])
                 (log_done (Inr (bytes_read, buf1, R1\<lparr>sess := st\<rparr>)))))
          else if bytes_read = SOCKET_ERROR then
            log_stmt (LOG spd Err
              ''read_async() return error. connection crashed or terminated by client'' [])
            (log_done (Inr (bytes_read, buf, R1)))
          else if bytes_read \<noteq> 0 then
            log_stmt (LOG spd Err
              ''Received MSG length is insufficient for node handshaking, {} bytes will drop.'' [Fmt_int bytes_read])
            (log_done (Inr (bytes_read, buf, R1)))
          else log_done (Inr (bytes_read, buf, R1)))"

definition process_message_logging ::
    "platform \<Rightarrow> ('w, 'x) sock_api_scheme \<Rightarrow> ('l, 'y) spd_api_scheme \<Rightarrow> sock \<Rightarrow> buffer \<Rightarrow> 'w router \<Rightarrow>
     ('l, (int \<times> buffer \<times> 'w router) outcome) action" where
  "process_message_logging pf api spd ready_read_socket recv_buffer R =
     log_then (log_run (read_async pf api ready_read_socket recv_buffer DATA_MESSAGE_SIZE (world R)))
       (\<lambda>(bytes_read, buf, w).
          let R1 = R\<lparr>world := w\<rparr> in
          if bytes_read = int DATA_MESSAGE_SIZE then
            log_stmt (LOG spd Debug ''Received MSG : {}'' [Fmt_str (c_str buf)])
            (log_stmt (FLOG spd Info ''Received MSG  : {}'' [Fmt_str (c_str buf)])
            (let buf1 = buf[DATA_MESSAGE_SIZE := NUL] in
             case extract_dst_id buf1 bytes_read of
               Inl e \<Rightarrow> log_done (Inl e)
             | Inr dst_id \<Rightarrow>
                 (case find_session_by_id dst_id (sess R1) of
                    None \<Rightarrow>
                      log_stmt (LOG spd Err ''Destination not found: {}'' [Fmt_int dst_id])
                      (log_done (Inr (0, buf1, R1)))
                  | Some dst_session \<Rightarrow>
                      let msg = take DATA_MESSAGE_SIZE buf1
                      in log_done (Inr (bytes_read, buf1, forward dst_session msg R1)))))
          else if bytes_read = SOCKET_ERROR then
            log_stmt (LOG spd Err
              ''read_async() return error. connection crashed or terminated by client'' [])
            (log_done (Inr (bytes_read, buf, R1)))
          else if bytes_read \<noteq> 0 then
            log_stmt (LOG spd Err
              ''Received MSG length is insufficient for MSG processing, {} bytes will drop.'' [Fmt_int bytes_read])
            (log_done (Inr (bytes_read, buf, R1)))
          else log_done (Inr (bytes_read, buf, R1)))"

partial_function (option) reads_loop_logging ::
    "platform \<Rightarrow> ('w, 'x) sock_api_scheme \<Rightarrow> ('l, 'y) spd_api_scheme \<Rightarrow> sock \<Rightarrow> ref \<Rightarrow> buffer \<Rightarrow>
     'w router \<Rightarrow> 'l \<Rightarrow> (log_error + (int \<times> buffer \<times> 'w router) outcome \<times> 'l) option" where
  "reads_loop_logging pf api spd ready_read_socket src_session recv_buffer R l =
     log_then
       (\<lambda>l. if session_id (sess R) src_session = NONE
        then handle_handshake_logging pf api spd ready_read_socket recv_buffer R l
        else process_message_logging pf api spd ready_read_socket recv_buffer R l)
       (\<lambda>res l. case res of
          Inl e \<Rightarrow> log_done (Inl e) l
        | Inr (bytes_read, buf, R1) \<Rightarrow>
            if bytes_read > 0 then reads_loop_logging pf api spd ready_read_socket src_session buf R1 l
            else log_done (Inr (bytes_read, buf, R1)) l) l"

definition do_reads_logging ::
    "platform \<Rightarrow> ('w, 'x) sock_api_scheme \<Rightarrow> ('l, 'y) spd_api_scheme \<Rightarrow> sock \<Rightarrow> buffer \<Rightarrow> 'w router \<Rightarrow>
     ('l, (buffer \<times> 'w router) outcome) action" where
  "do_reads_logging pf api spd ready_read_socket recv_buffer R =
     (case find_session_by_socket ready_read_socket (sess R) of
        None \<Rightarrow>
          log_stmt (LOG spd Err ''The socket doesnt exist and alive yet.1'' [])
          (log_done (Inr (recv_buffer, R)))
      | Some _ \<Rightarrow>
          (case find_session_by_socket ready_read_socket (sess R) of
             None \<Rightarrow>
               log_stmt (LOG spd Err ''The socket doesnt exist and alive yet.2'' [])
               (log_done (Inr (recv_buffer, R)))
           | Some src_session \<Rightarrow>
               log_then (reads_loop_logging pf api spd ready_read_socket src_session recv_buffer R)
                 (\<lambda>res. case res of
                    Inl e \<Rightarrow> log_done (Inl e)
                  | Inr (bytes_read, buf, R1) \<Rightarrow>
                      if bytes_read = SOCKET_ERROR then
                        log_stmt (LOG spd Err ''Error on socket recv, session will removed.'' [])
                        (log_done (Inr (buf, R1\<lparr>sess := remove_locked ready_read_socket (sess R1)\<rparr>)))
                      else log_done (Inr (buf, R1)))))"

definition do_writes_logging ::
    "('w, 'x) sock_api_scheme \<Rightarrow> ('l, 'y) spd_api_scheme \<Rightarrow> (errcode \<Rightarrow> int) \<Rightarrow> sock \<times> string \<Rightarrow>
     'w router \<Rightarrow> ('l, 'w router) action" where
  "do_writes_logging api spd errnum task R =
     (let dst_socket = fst task; msg = snd task in
      case find_session_by_socket dst_socket (sess R) of
        None \<Rightarrow>
          log_stmt (LOG spd Err ''Error on MSG sending: dst session is not exist.'' []) (log_done R)
      | Some dst_session \<Rightarrow>
          log_then (send_to_client_logging api spd errnum dst_socket msg (world R)) (\<lambda>(sent_byte, w).
            let R1 = R\<lparr>world := w\<rparr> in
            if sent_byte = int (length msg) then
              log_stmt (LOG spd Trace ''MSG Forwarded to : {}'' [Fmt_int (session_id (sess R1) dst_session)])
              (log_stmt (FLOG spd Info ''Forwarded MSG : {}'' [Fmt_str msg])
              (log_done R1))
            else if sent_byte = SOCKET_ERROR then
              log_stmt (LOG spd Err ''Error on socket send, session will removed.'' [])
              (log_done (case session_socket (sess R1) dst_session of
                 None \<Rightarrow> R1
               | Some s \<Rightarrow> R1\<lparr>sess := remove_locked s (sess R1)\<rparr>))
            else
              log_stmt (LOG spd Err ''Error on MSG sending. invalid sent byte {}'' [Fmt_int sent_byte])
              (log_done R1)))"

definition event_pass_logging ::
    "platform \<Rightarrow> ('w, 'f, 'x) server_api_scheme \<Rightarrow> ('l, 'y) spd_api_scheme \<Rightarrow> (errcode \<Rightarrow> int) \<Rightarrow> sock \<Rightarrow> 'f \<Rightarrow>
     'w router \<Rightarrow> ('l, lock_error + ('f \<times> 'w router)) action" where
  "event_pass_logging pf api spd errnum server_socket fds R =
     (case reset_fd_set api fds server_socket (get_accpeted_sockets (sess R)) of (fds1, max_sd) \<Rightarrow>
      case api_select api (max_sd + 1) fds1 (world R) of (activity, readfds, w1) \<Rightarrow>
      let R1 = R\<lparr>world := w1\<rparr> in
      if activity = SOCKET_ERROR then
        let err = errnum (api_errno api w1)
        in log_stmt (LOG spd Critical ''Error on select() err code : {}'' [Fmt_int err])
           (log_done (Inr (readfds, R1)))
      else
        let ready = take (nat activity) (api_fd_array api readfds);
            events = (\<lambda>R'. R'\<lparr>read_queue := push_ready server_socket ready (read_queue R')\<rparr>)
        in if api_FD_ISSET api server_socket readfds then
             (case tcp_accept_client pf api server_socket (world R1) of (new_client_socket, w2) \<Rightarrow>
              let R2 = R1\<lparr>world := w2\<rparr> in
              if new_client_socket = SOCKET_ERROR then log_done (Inr (readfds, R2))
              else (case accept_client new_client_socket (sess R2) of
                      Inl e \<Rightarrow> log_done (Inl e)
                    | Inr st \<Rightarrow>
                        log_stmt (LOG spd Info ''Accept new node request {}.'' [Fmt_int new_client_socket])
                        (log_done (Inr (readfds, events (R2\<lparr>sess := st\<rparr>))))))
           else log_done (Inr (readfds, events R1)))"

text \<open>What a worker does before its loop; a read worker also allocates its buffer.\<close>

definition worker_thread_read_begin :: "('l, 'y) spd_api_scheme \<Rightarrow> int \<Rightarrow> ('l, buffer) action" where
  "worker_thread_read_begin spd thread_id =
     log_stmt (LOG spd Trace ''Read Worker Thread {} started.'' [Fmt_int thread_id])
     (log_done (replicate RECV_BUFF_SIZE NUL))"

definition worker_thread_write_begin :: "('l, 'y) spd_api_scheme \<Rightarrow> int \<Rightarrow> ('l, unit) action" where
  "worker_thread_write_begin spd thread_id =
     log_stmt (LOG spd Trace ''Write Worker Thread {} started.'' [Fmt_int thread_id]) (log_done ())"

text \<open>\<^verbatim>\<open>Router::start\<close> up to the event loop, in the thread that calls it.\<close>

definition Router_start_logging ::
    "platform \<Rightarrow> ('w, 'f, 'x) server_api_scheme \<Rightarrow> ('l, 'y) spd_api_scheme \<Rightarrow> 32 word \<Rightarrow> 32 word \<Rightarrow>
     'w router \<Rightarrow> ('l, 'w start_result) action" where
  "Router_start_logging pf api spd thread_count port R =
     (let threads = spawn_workers thread_count;
          R1 = R\<lparr>sess := init_sessions MAX_CLIENTS_COUNT (sess R)\<rparr>
      in log_then (start_tcp_server_logging pf api spd (sint port) (world R1)) (\<lambda>(server_socket, w).
           log_done
             (if server_socket = SOCKET_ERROR
              then (if threads = [] then Returned (-1) w else Std_terminate w)
              else Event_loop server_socket threads (R1\<lparr>world := w\<rparr>))))"

section \<open>Without the log statements\<close>

context spdlog_laws
begin

lemma add_node_transparent [log_intros]:
  "transparent (add_node_logging spd s i st) (Some (add_node s i st))"
  by (auto simp: add_node_logging_def add_node_def Let_def intro!: log_intros split: option.split)

lemma start_tcp_server_transparent [log_intros]:
  "transparent (start_tcp_server_logging pf api spd port w) (Some (start_tcp_server pf api port w))"
  by (auto simp: start_tcp_server_logging_def start_tcp_server_def intro!: log_intros split: prod.split)

lemma send_to_client_transparent [log_intros]:
  "transparent (send_to_client_logging api spd errnum s m w) (Some (send_to_client api s m w))"
  by (auto simp: send_to_client_logging_def send_to_client_def Let_def intro!: log_intros split: prod.split)

lemma Router_start_transparent [log_intros]:
  "transparent (Router_start_logging pf api spd n port R) (Some (Router_start pf api n port R))"
  unfolding Router_start_logging_def Router_start_def Let_def
  by (rule transparent_then_Some [OF start_tcp_server_transparent])
    (auto intro: log_intros simp: case_prod_beta)

lemma event_pass_transparent:
  "transparent (event_pass_logging pf api spd errnum s fds R) (Some (event_pass pf api s fds R))"
  unfolding event_pass_logging_def event_pass_def Let_def
  by (auto intro!: log_intros split: prod.split sum.split)

lemma do_writes_transparent:
  "transparent (do_writes_logging api spd errnum task R) (Some (do_writes api task R))"
  unfolding do_writes_logging_def do_writes_def Let_def
  by (auto intro!: log_intros transparent_then_Some [OF send_to_client_transparent]
      split: option.split prod.split)

lemma handle_handshake_transparent:
  "transparent (handle_handshake_logging pf api spd s buf R) (handle_handshake pf api s buf R)"
proof -
  have eq: "handle_handshake pf api s buf R =
      Option.bind (read_async pf api s buf ID_MESSAGE_SIZE (world R))
        (\<lambda>x. handle_handshake pf api s buf R)"
    by (simp add: handle_handshake_def split: option.split)
  show ?thesis
    unfolding handle_handshake_logging_def
    by (subst eq, rule transparent_then [OF transparent_run])
      (auto simp: handle_handshake_def Let_def intro!: log_intros transparent_then_Some [OF add_node_transparent]
        split: sum.split)
qed

lemma process_message_transparent:
  "transparent (process_message_logging pf api spd s buf R) (process_message pf api s buf R)"
proof -
  have eq: "process_message pf api s buf R =
      Option.bind (read_async pf api s buf DATA_MESSAGE_SIZE (world R)) (\<lambda>x. process_message pf api s buf R)"
    by (simp add: process_message_def split: option.split)
  show ?thesis
    unfolding process_message_logging_def
    by (subst eq, rule transparent_then [OF transparent_run])
      (auto simp: process_message_def Let_def intro!: log_intros split: sum.split option.split)
qed

text \<open>The loop: each of its runs, with and without log statements, is one of the other.\<close>

lemma turn_transparent:
  "transparent (\<lambda>l. if c then handle_handshake_logging pf api spd s buf R l
      else process_message_logging pf api spd s buf R l)
    (if c then handle_handshake pf api s buf R else process_message pf api s buf R)"
  by (cases c) (simp_all add: handle_handshake_transparent process_message_transparent)

lemma reads_loop_returns:
  assumes "reads_loop_logging pf api spd s r buf R l = Some res" and "ready l"
  shows "\<exists>x. reads_loop pf api s r buf R = Some x"
proof -
  have "ready l \<longrightarrow> (\<exists>x. reads_loop pf api s r buf R = Some x)"
  proof (rule reads_loop_logging.raw_induct [OF _ assms(1), where
        P = "\<lambda>pf api spd' s r buf R l res. spd' = spd \<longrightarrow> ready l \<longrightarrow> (\<exists>x. reads_loop pf api s r buf R = Some x)",
        THEN mp, OF _ refl], intro impI)
    fix F pf api spd' s r buf R l res
    assume IH: "\<And>pf api spd' s r buf R l res. F pf api spd' s r buf R l = Some res \<Longrightarrow>
        spd' = spd \<longrightarrow> ready l \<longrightarrow> (\<exists>x. reads_loop pf api s r buf R = Some x)"
      and run: "log_then
        (\<lambda>l. if session_id (sess R) r = NONE then handle_handshake_logging pf api spd' s buf R l
          else process_message_logging pf api spd' s buf R l)
        (\<lambda>res l. case res of Inl e \<Rightarrow> log_done (Inl e) l
          | Inr (k, buf, R1) \<Rightarrow> if 0 < k then F pf api spd' s r buf R1 l else log_done (Inr (k, buf, R1)) l) l = Some res"
      and spd: "spd' = spd" and "ready l"
    show "\<exists>x. reads_loop pf api s r buf R = Some x"
      using run unfolding spd
      by (cases rule: transparent_cases [OF turn_transparent [of "session_id (sess R) r = NONE" pf api s buf R] \<open>ready l\<close>])
        (auto simp: log_then_def reads_loop.simps [of pf api s r buf R] split: sum.splits if_splits dest!: IH)
  qed
  with assms(2) show ?thesis by blast
qed

lemma reads_loop_logs:
  assumes "reads_loop pf api s r buf R = Some x" and "ready l"
  shows "\<exists>l'. reads_loop_logging pf api spd s r buf R l = Some (Inr (x, l')) \<and> ready l'"
proof -
  have "\<forall>l. ready l \<longrightarrow> (\<exists>l'. reads_loop_logging pf api spd s r buf R l = Some (Inr (x, l')) \<and> ready l')"
  proof (rule reads_loop.raw_induct [OF _ assms(1), where P = "\<lambda>pf api s r buf R x. \<forall>l. ready l \<longrightarrow>
        (\<exists>l'. reads_loop_logging pf api spd s r buf R l = Some (Inr (x, l')) \<and> ready l')"], intro allI impI)
    fix F pf api s r buf R x l
    assume IH: "\<And>pf api s r buf R x. F pf api s r buf R = Some x \<Longrightarrow> \<forall>l. ready l \<longrightarrow>
        (\<exists>l'. reads_loop_logging pf api spd s r buf R l = Some (Inr (x, l')) \<and> ready l')"
      and run: "Option.bind (if session_id (sess R) r = NONE then handle_handshake pf api s buf R
          else process_message pf api s buf R)
        (\<lambda>res. case res of Inl e \<Rightarrow> Some (Inl e)
          | Inr (k, buf, R1) \<Rightarrow> if 0 < k then F pf api s r buf R1 else Some (Inr (k, buf, R1))) = Some x"
      and "ready l"
    show "\<exists>l'. reads_loop_logging pf api spd s r buf R l = Some (Inr (x, l')) \<and> ready l'"
      using run
      by (cases rule: transparent_cases [OF turn_transparent [of "session_id (sess R) r = NONE" pf api s buf R] \<open>ready l\<close>])
        (auto simp: log_then_def log_done_def reads_loop_logging.simps [of pf api spd s r buf R]
          split: sum.splits if_splits dest!: IH)
  qed
  with assms(2) show ?thesis by blast
qed

lemma reads_loop_transparent [log_intros]:
  "transparent (reads_loop_logging pf api spd s r buf R) (reads_loop pf api s r buf R)"
  by (rule transparentI) (auto dest: reads_loop_returns reads_loop_logs)

lemma do_reads_transparent:
  "transparent (do_reads_logging pf api spd s buf R) (do_reads pf api s buf R)"
proof (cases "find_session_by_socket s (sess R)")
  case None
  then show ?thesis by (simp add: do_reads_logging_def do_reads_def log_intros)
next
  case (Some r)
  have eq: "do_reads pf api s buf R = Option.bind (reads_loop pf api s r buf R) (\<lambda>x. do_reads pf api s buf R)"
    using Some by (simp add: do_reads_def split: option.split)
  show ?thesis
    by (subst eq, subst do_reads_logging_def, simp add: Some, rule transparent_then [OF reads_loop_transparent])
      (auto simp: do_reads_def Some intro!: log_intros split: sum.split)
qed

end

end
