(* ===== verification/Programs.thy ===== *)
theory Programs
  imports Node_Logs Router_Logs
begin

text \<open>
  The two programs with all their log statements (\<^verbatim>\<open>node/main.cpp\<close>, \<^verbatim>\<open>router/main.cpp\<close>):
  initialising the logger, the messages before the node or the router is started, the node's whole
  run and the router's start-up, and the handling of an exception. \<open>node_main\<close> and \<open>router_main\<close>
  are the same functions without the log; the lemmas relate the two. The text of a C++ exception is
  implementation-defined and is the argument \<open>what\<close>.
\<close>

section \<open>The code\<close>

definition node_exception ::
    "('l, 'y) spd_api_scheme \<Rightarrow> (cxx_exn \<Rightarrow> string) \<Rightarrow> cxx_exn \<Rightarrow> 'w \<Rightarrow> ('l, int \<times> 'w) action" where
  "node_exception spd what e w =
     log_stmt (LOG spd Err (''Error: '' @ what e) []) (log_done (0, w))"

text \<open>\<^verbatim>\<open>main\<close> after the logger has been initialised, then the whole program.\<close>

definition node_main_logging ::
    "platform \<Rightarrow> ('w, 'x) client_api_scheme \<Rightarrow> ('l, 'y) spd_api_scheme \<Rightarrow> (cxx_exn \<Rightarrow> string) \<Rightarrow>
     32 word \<times> port \<Rightarrow> sock \<Rightarrow> buffer \<Rightarrow> string list \<Rightarrow> 'w \<Rightarrow> ('l, int \<times> 'w) action" where
  "node_main_logging pf api spd what uninit_addr uninit_sock uninit_buffer argv w =
     (if length argv \<noteq> 5 then
        log_stmt (LOG spd Critical (''Insufficient Argument.'' @ [CHR 0x0A] @
            ''Usage: ISC-Node.exe <id> <dstid> <router_ip> <router_port>'') [])
        (log_done (1, w))
      else case stoi (argv ! 1) of Inl e \<Rightarrow> node_exception spd what e w | Inr nodeid \<Rightarrow>
           case stoi (argv ! 2) of Inl e \<Rightarrow> node_exception spd what e w | Inr dstid \<Rightarrow>
           let router_ip = argv ! 3 in
           case stoi (argv ! 4) of Inl e \<Rightarrow> node_exception spd what e w | Inr router_port \<Rightarrow>
           log_stmt (LOG spd Info ''Node {} Started.'' [Fmt_int nodeid])
           (log_stmt (LOG spd Info ''Dst Node is : {}'' [Fmt_int dstid])
           (log_stmt (LOG spd Info ''Router is on {}:{}'' [Fmt_str router_ip, Fmt_int router_port])
           (let nd = Node nodeid dstid True
              (TCPSocket router_ip router_port uninit_addr uninit_sock uninit_buffer)
            in log_then (Node_start_logging pf api spd nd w) (\<lambda>(e, nd', w').
                 node_exception spd what e (Node_destructor pf api nd' w'))))))"

definition node_program ::
    "platform \<Rightarrow> ('w, 'x) client_api_scheme \<Rightarrow> ('l, 'y) spd_api_scheme \<Rightarrow> (cxx_exn \<Rightarrow> string) \<Rightarrow>
     32 word \<times> port \<Rightarrow> sock \<Rightarrow> buffer \<Rightarrow> string list \<Rightarrow> 'w \<Rightarrow> ('l, int \<times> 'w) action" where
  "node_program pf api spd what uninit_addr uninit_sock uninit_buffer argv w l =
     node_main_logging pf api spd what uninit_addr uninit_sock uninit_buffer argv w
       (Logger_Initialize spd default_file_path default_max_file_size default_max_files l)"

definition router_main_logging ::
    "platform \<Rightarrow> ('w, 'f, 'x) server_api_scheme \<Rightarrow> ('l, 'y) spd_api_scheme \<Rightarrow> (cxx_exn \<Rightarrow> string) \<Rightarrow>
     string list \<Rightarrow> 'w \<Rightarrow> ('l, int + 'w start_result) action" where
  "router_main_logging pf api spd what argv w =
     (if length argv \<noteq> 2 then
        log_stmt (LOG spd Critical (''Insufficient Argument.'' @ [CHR 0x0A] @
             ''Usage: ISC-Router.exe <listen_port>'') [])
        (log_done (Inl 1))
      else case stoi (argv ! 1) of
             Inl e \<Rightarrow>
               log_stmt (\<lambda>l. Inr (spd_cerr spd (''Exception: '' @ what e @ [CHR 0x0A]) l)) (log_done (Inl 0))
           | Inr router_port \<Rightarrow>
               log_stmt (LOG spd Info ''Router started to listen on {} port.'' [Fmt_int router_port])
               (log_then (Router_start_logging pf api spd THREAD_COUNT (word_of_int router_port) (router0 w))
                 (\<lambda>res. case res of
                    Returned _ _ \<Rightarrow> log_done (Inl 0)
                  | _ \<Rightarrow> log_done (Inr res))))"

definition router_program ::
    "platform \<Rightarrow> ('w, 'f, 'x) server_api_scheme \<Rightarrow> ('l, 'y) spd_api_scheme \<Rightarrow> (cxx_exn \<Rightarrow> string) \<Rightarrow>
     string list \<Rightarrow> 'w \<Rightarrow> ('l, int + 'w start_result) action" where
  "router_program pf api spd what argv w l =
     router_main_logging pf api spd what argv w
       (Logger_Initialize spd ''logs/router.log'' default_max_file_size default_max_files l)"

section \<open>With and without the loggers\<close>

context spdlog_laws
begin

lemma LOG_null: "spd_get spd ''console'' l = None \<Longrightarrow> LOG spd lv fmt args l = Inl Null_logger"
  by (simp add: LOG_def Logger_Console_def)

lemma transparent_cerr [log_intros]:
  assumes "transparent m x" shows "transparent (log_stmt (\<lambda>l. Inr (spd_cerr spd t l)) m) x"
proof (rule transparent_step [OF _ assms])
  fix l assume "ready l"
  then have "ready (spd_cerr spd t l)" by (simp add: ready_def Logger_Console_def Logger_File_def cerr_get)
  then show "\<exists>l'. ready l' \<and> log_stmt (\<lambda>l. Inr (spd_cerr spd t l)) m l = m l'" by (auto simp: log_stmt_def)
qed

lemma node_exception_transparent [log_intros]: "transparent (node_exception spd what e w) (Some (0, w))"
  by (simp add: node_exception_def log_intros)

lemma node_run_transparent:
  "transparent (log_then (Node_start_logging pf api spd nd w) (\<lambda>(e, nd', w'). node_exception spd what e (f nd' w')))
    (case Node_start pf api nd w of None \<Rightarrow> None | Some (e, nd', w') \<Rightarrow> Some (0, f nd' w'))"
proof -
  have eq: "(case Node_start pf api nd w of None \<Rightarrow> None | Some (e, nd', w') \<Rightarrow> Some (0, f nd' w')) =
      Option.bind (Node_start pf api nd w) (\<lambda>(e, nd', w'). Some (0, f nd' w'))"
    by (simp split: option.split)
  show ?thesis unfolding eq
    by (rule transparent_then [OF Node_start_transparent]) (auto intro: node_exception_transparent)
qed

lemma node_main_transparent:
  "transparent (node_main_logging pf api spd what ua us ub argv w) (node_main pf api ua us ub argv w)"
  unfolding node_main_logging_def node_main_def Let_def
  by (auto intro!: log_intros node_run_transparent split: sum.split)

lemma router_main_transparent:
  "transparent (router_main_logging pf api spd what argv w) (Some (router_main pf api argv w))"
  unfolding router_main_logging_def router_main_def
  by (auto intro!: log_intros transparent_then_Some [OF Router_start_transparent]
      split: sum.split start_result.split)

end

end
