(* ===== verification/Program_Properties.thy ===== *)
theory Program_Properties
  imports Programs Node_Properties
begin

text \<open>
  The properties of the logger, of the two programs as a whole, and of the node's attempts to
  connect.
\<close>

section \<open>The logger\<close>

lemma spd0_get: "spd_get sim_spd n (spd0 ok) = None"
  by (simp add: sim_spd_def sim_get_def spd0_def)

text \<open>C26: When both sinks can be created and neither name is taken, initialising the logger registers
  a console logger and a file logger that let every level pass, and from then on no log statement
  meets a null pointer: each one is written by the logger it names and leaves both registered.\<close>

theorem logger_initialized:
  assumes "spdlog_laws spd" and "fst (create_sinks spd p k m l) = Inr (cs, fs)"
    and "spd_get spd ''console'' l = None" and "spd_get spd ''file'' l = None"
  shows "Logger_Console spd (Logger_Initialize spd p k m l) =
      Some \<lparr>logger_name = ''console'', logger_sink = cs, logger_level = Trace\<rparr> \<and>
    Logger_File spd (Logger_Initialize spd p k m l) =
      Some \<lparr>logger_name = ''file'', logger_sink = fs, logger_level = Trace\<rparr> \<and>
    (\<forall>lv fmt args l1. Logger_Console spd l1 \<noteq> None \<and> Logger_File spd l1 \<noteq> None \<longrightarrow>
       (\<exists>l2. LOG spd lv fmt args l1 = Inr l2 \<and> Logger_Console spd l2 = Logger_Console spd l1 \<and>
          Logger_File spd l2 = Logger_File spd l1) \<and>
       (\<exists>l2. FLOG spd lv fmt args l1 = Inr l2 \<and> Logger_Console spd l2 = Logger_Console spd l1 \<and>
          Logger_File spd l2 = Logger_File spd l1))"
  using spdlog_laws.Logger_Initialize_ready [OF assms] spdlog_laws.log_get [OF assms(1)]
  by (auto simp: LOG_def FLOG_def Logger_Console_def Logger_File_def)

theorem logger_initialized_witness:
  "Logger_Console sim_spd (Logger_Initialize sim_spd ''logs/router.log'' 5242880 3 (spd0 True)) =
     Some \<lparr>logger_name = ''console'', logger_sink = Stdout_color_sink_mt ''%^[%T] : %v%$'',
       logger_level = Trace\<rparr>"
proof -
  have "fst (create_sinks sim_spd ''logs/router.log'' 5242880 3 (spd0 True)) =
      Inr (Stdout_color_sink_mt ''%^[%T] : %v%$'',
        Rotating_file_sink_mt ''logs/router.log'' 5242880 3 ''[%Y-%m-%d %T.%e] [%l] : %v'')"
    by (simp add: create_sinks_def sim_spd_def spd0_def)
  from logger_initialized [OF sim.spdlog_laws_axioms this spd0_get spd0_get] show ?thesis by blast
qed

text \<open>C35: When the log file cannot be opened, neither logger is registered, although the failure is
  caught and reported: the node dereferences a null pointer at its first log statement whatever
  its arguments are, and the router does unless its port is no number.\<close>

theorem missing_log_file_is_fatal:
  assumes "spdlog_laws spd" and "spd_get spd ''console'' l = None"
    and "\<forall>p. fst (create_sinks spd p default_max_file_size default_max_files l) = Inl (ex p)"
  shows "node_program pf capi spd what ua us ub argv w l = Some (Inl Null_logger) \<and>
    router_program rpf sapi spd what args w' l =
      (case (if length args = 2 then Some (stoi (args ! 1)) else None) of
         Some (Inl e) \<Rightarrow> Some (Inr (Inl 0, spd_cerr spd (''Exception: '' @ what e @ [CHR 0x0A])
           (Logger_Initialize spd ''logs/router.log'' default_max_file_size default_max_files l)))
       | _ \<Rightarrow> Some (Inl Null_logger))"
proof -
  have "LOG spd lv fmt a (Logger_Initialize spd p default_max_file_size default_max_files l) = Inl Null_logger"
    for lv fmt a p
    using spdlog_laws.Logger_Initialize_failed [OF assms(1), of p default_max_file_size default_max_files l]
      assms(2,3) by (simp add: spdlog_laws.LOG_null [OF assms(1)])
  then show ?thesis
    by (simp add: node_program_def router_program_def node_main_logging_def router_main_logging_def
        node_exception_def log_stmt_def log_done_def Let_def split: sum.split)
qed

theorem missing_log_file_is_fatal_witness:
  "node_program Win32 sample_client sim_spd (\<lambda>_. ''stoi'') (0, 0) 0 [] [''node''] (client_net []) (spd0 False) =
     Some (Inl Null_logger)"
proof -
  have "\<forall>p. fst (create_sinks sim_spd p default_max_file_size default_max_files (spd0 False)) =
      Inl ''Failed opening file''"
    by (simp add: create_sinks_def sim_spd_def spd0_def)
  from missing_log_file_is_fatal [OF sim.spdlog_laws_axioms spd0_get this, THEN conjunct1]
  show ?thesis .
qed

section \<open>The programs\<close>

text \<open>C27: When the loggers can be set up, the log statements change nothing else: the node, with every
  log statement of its \<^verbatim>\<open>main\<close>, its loops and its socket, ends with the same exit code and in the
  same world as without them, or runs for ever if it does so without them, and the router ends or
  comes to its event loop as without them.\<close>

theorem logging_is_transparent:
  assumes "spdlog_laws spd" and "spd_get spd ''console'' l = None" and "spd_get spd ''file'' l = None"
    and "\<forall>p. \<exists>sinks. fst (create_sinks spd p default_max_file_size default_max_files l) = Inr sinks"
  shows "map_option (map_sum id fst) (node_program pf capi spd what ua us ub argv w l) =
      map_option Inr (node_main pf capi ua us ub argv w) \<and>
    (\<exists>l'. router_program rpf sapi spd what args w' l = Some (Inr (router_main rpf sapi args w', l')))"
proof -
  have r: "spdlog_laws.ready spd (Logger_Initialize spd p default_max_file_size default_max_files l)" for p
  proof -
    obtain cs fs where "fst (create_sinks spd p default_max_file_size default_max_files l) = Inr (cs, fs)"
      using assms(4) by fastforce
    from spdlog_laws.Logger_Initialize_ready [OF assms(1) this assms(2,3)] show ?thesis
      by (simp add: spdlog_laws.ready_def [OF assms(1)])
  qed
  have "\<exists>l'. router_program rpf sapi spd what args w' l = Some (Inr (router_main rpf sapi args w', l'))"
    unfolding router_program_def
    using spdlog_laws.transparent_Some [OF assms(1) spdlog_laws.router_main_transparent [OF assms(1)] r] by meson
  then show ?thesis
    using spdlog_laws.transparent_erase [OF assms(1) spdlog_laws.node_main_transparent [OF assms(1)] r]
    by (simp add: node_program_def)
qed

text \<open>The node of the sample on a connection that delivers a message without a destination, as a
  program with its arguments.\<close>

definition sample_argv :: "string list" where
  "sample_argv = [''node'', ''5'', ''3'', ''127.0.0.1'', ''9000'']"

lemma sample_node_main:
  "\<exists>w'. node_main Win32 sample_client (0, 0) 1 (replicate BUFFER_SIZE NUL) sample_argv (client_net [malformed]) =
     Some (0, w') \<and> outbound w' 1 = [''005'', ''00522001234561111111111111111003'']"
proof -
  have i: "stoi ''5'' = Inr 5" "stoi ''3'' = Inr 3" "stoi ''9000'' = Inr 9000" by code_simp+
  have nd: "Node 5 3 True (TCPSocket ''127.0.0.1'' 9000 (0, 0) 1 (replicate BUFFER_SIZE NUL)) = sample_node"
    by (simp add: sample_node_def)
  obtain nd' where "Node_start Win32 sample_client sample_node (client_net [malformed]) =
      Some (Invalid_argument, nd', mal_sent\<lparr>inbound := (inbound mal_sent)(1 := [[]])\<rparr>)"
    using Node_start_malformed [OF net_c.recv_api_axioms [of Win32] malformed_facts] by blast
  then show ?thesis
    by (simp add: node_main_def sample_argv_def i nd Node_destructor_def TCPSocket_destructor_def closeSocket_def
        net_client_def net_close_def mal_sent_def)
qed

theorem logging_is_transparent_witness:
  "\<exists>w'. map_option (map_sum id fst) (node_program Win32 sample_client sim_spd (\<lambda>_. ''stoi'') (0, 0) 1
       (replicate BUFFER_SIZE NUL) sample_argv (client_net [malformed]) (spd0 True)) = Some (Inr (0, w')) \<and>
     outbound w' 1 = [''005'', ''00522001234561111111111111111003'']"
proof -
  have "\<forall>p. \<exists>sinks. fst (create_sinks sim_spd p default_max_file_size default_max_files (spd0 True)) = Inr sinks"
    by (simp add: create_sinks_def sim_spd_def spd0_def)
  note eq = logging_is_transparent [OF sim.spdlog_laws_axioms spd0_get spd0_get this, THEN conjunct1]
  show ?thesis unfolding eq using sample_node_main by auto
qed

section \<open>Connecting\<close>

text \<open>A turn of the node's outer loop in which the connection fails.\<close>

definition failed_turn ::
    "platform \<Rightarrow> ('w, 'x) client_api_scheme \<Rightarrow> node \<times> 'w \<Rightarrow> node \<times> 'w" where
  "failed_turn pf api = (\<lambda>(nd, w). case connect_to_server pf api (node_tcp nd) w of
     (err, ts, w1) \<Rightarrow> (nd\<lparr>node_tcp := ts\<rparr>, sleep pf api 5000 w1))"

lemma failed_turn_start:
  assumes "fst (connect_to_server pf api (node_tcp (fst x)) (snd x)) \<noteq> NO_ERR"
  shows "start_turn pf api (fst x) (snd x) = Some (Inr (failed_turn pf api x))"
  using assms by (auto simp: start_turn_def failed_turn_def Let_def case_prod_beta)

lemma failed_turn_keeps:
  "node_id (fst (failed_turn pf api x)) = node_id (fst x)"
  "node_dstId (fst (failed_turn pf api x)) = node_dstId (fst x)"
  "initiate_messaging (fst (failed_turn pf api x)) = initiate_messaging (fst x)"
  "tcp_buffer (node_tcp (fst (failed_turn pf api x))) = tcp_buffer (node_tcp (fst x))"
  by (auto simp: failed_turn_def case_prod_beta) (metis connect_to_server_keeps prod.collapse)

text \<open>A node that cannot connect does not give up: after any number of failed attempts, each
  followed by a delay of five seconds, it is back at the start of its loop with the same
  identifiers and the same buffer.\<close>

lemma node_keeps_connecting:
  assumes "\<forall>k<n. fst (connect_to_server pf api (node_tcp (fst ((failed_turn pf api ^^ k) (nd, w))))
      (snd ((failed_turn pf api ^^ k) (nd, w)))) \<noteq> NO_ERR"
  shows "\<exists>nd' w'. (failed_turn pf api ^^ n) (nd, w) = (nd', w') \<and>
    Node_start pf api nd w = Node_start pf api nd' w' \<and> node_id nd' = node_id nd \<and>
    node_dstId nd' = node_dstId nd \<and> initiate_messaging nd' = initiate_messaging nd \<and>
    tcp_buffer (node_tcp nd') = tcp_buffer (node_tcp nd)"
  using assms
proof (induction n)
  case (Suc n)
  then obtain nd1 w1 where IH: "(failed_turn pf api ^^ n) (nd, w) = (nd1, w1)"
    "Node_start pf api nd w = Node_start pf api nd1 w1" "node_id nd1 = node_id nd"
    "node_dstId nd1 = node_dstId nd" "initiate_messaging nd1 = initiate_messaging nd"
    "tcp_buffer (node_tcp nd1) = tcp_buffer (node_tcp nd)" by auto
  obtain nd2 w2 where ft: "failed_turn pf api (nd1, w1) = (nd2, w2)" by fastforce
  have "start_turn pf api nd1 w1 = Some (Inr (nd2, w2))"
    using failed_turn_start [of pf api "(nd1, w1)"] Suc.prems IH(1) ft by force
  then have "Node_start pf api nd1 w1 = Node_start pf api nd2 w2" by (subst Node_start.simps) simp
  with IH ft failed_turn_keeps [of pf api "(nd1, w1)"] show ?case by simp
qed simp

end
