(* ===== verification/Thread_Flow.thy ===== *)
theory Thread_Flow
  imports Thread_Rest "HOL-Library.Multiset"
begin

text \<open>
  What becomes of the messages while the threads run. Every step of a worker is labelled with what
  it does to a message: a read worker receives one from a socket, forwards it or drops it; a write
  worker takes one from the write queue and delivers it, fails to send it, or finds its connection
  gone. The labels of a run account for every message: none is lost, duplicated or invented between
  \<^verbatim>\<open>recv\<close> and \<^verbatim>\<open>send\<close>, those of one source stay in order up to the write queue, and the write
  queue is first in, first out.
\<close>

section \<open>Labels\<close>

datatype flow_event =
    Received sock string
  | Forwarded sock sock string
  | Unrouted sock string
  | Taken sock string
  | Delivered sock string
  | Failed sock string
  | Gone sock string

text \<open>The label of the step that worker \<open>i\<close> takes at a program counter.\<close>

fun emits ::
    "platform \<Rightarrow> ('w, 'x) sock_api_scheme \<Rightarrow> nat \<Rightarrow> pc \<Rightarrow> 'w threads \<Rightarrow> flow_event list" where
  "emits pf api i (R_msg s l r) S =
     (case read_async pf api s (bufs S i) DATA_MESSAGE_SIZE (world (rt S)) of
        None \<Rightarrow> []
      | Some (bytes_read, buf, w) \<Rightarrow>
          if bytes_read = int DATA_MESSAGE_SIZE then [Received s (take DATA_MESSAGE_SIZE buf)] else [])"
| "emits pf api i (R_route s l r m v) S =
     (case find_session_by_id v (sess (rt S)) of None \<Rightarrow> [Unrouted s m] | Some d \<Rightarrow> [])"
| "emits pf api i (R_push s l r m d) S =
     (case session_socket (sess (rt S)) d of None \<Rightarrow> [Unrouted s m] | Some t \<Rightarrow> [Forwarded s t m])"
| "emits pf api i W_pop S =
     (case try_pop (write_queue (rt S)) of None \<Rightarrow> [] | Some (t, q) \<Rightarrow> [Taken (fst t) (snd t)])"
| "emits pf api i (W_find t m) S =
     (case find_session_by_socket t (sess (rt S)) of None \<Rightarrow> [Gone t m] | Some l \<Rightarrow> [])"
| "emits pf api i (W_send t m l) S =
     (if fst (send_to_client api t m (world (rt S))) = int (length m) then [Delivered t m] else [Failed t m])"
| "emits pf api i _ S = []"

inductive flow ::
    "platform \<Rightarrow> ('w, 'f, 'x) server_api_scheme \<Rightarrow> sock \<Rightarrow> 'w threads \<Rightarrow> flow_event list \<Rightarrow> 'w threads \<Rightarrow> bool"
  for pf api server S where
  flow_start: "flow pf api server S [] S"
| flow_worker: "flow pf api server S es S1 \<Longrightarrow> i < unat THREAD_COUNT \<Longrightarrow>
    work pf api i (pcs S1 i) S1 = Some S2 \<Longrightarrow> flow pf api server S (es @ emits pf api i (pcs S1 i) S1) S2"
| flow_listener: "flow pf api server S es S1 \<Longrightarrow> event_step pf api server fds (mpc S1) S1 = Some S2 \<Longrightarrow>
    flow pf api server S es S2"

text \<open>The runs with labels are the runs of the threads.\<close>

lemma flow_reach: "flow pf api server (threads0 w) es S \<Longrightarrow> thread_reach pf api server w S"
  by (induction rule: flow.induct) (auto intro: initial later worker listener)

lemma reach_flow: "thread_reach pf api server w S \<Longrightarrow> \<exists>es. flow pf api server (threads0 w) es S"
  by (induction rule: thread_reach.induct)
    (auto elim!: thread_stepE intro: flow_start flow_worker flow_listener)

section \<open>Reading the labels\<close>

fun received1 :: "sock \<Rightarrow> flow_event \<Rightarrow> string list" where
  "received1 s (Received s' m) = (if s' = s then [m] else [])"
| "received1 s _ = []"

fun handled1 :: "sock \<Rightarrow> flow_event \<Rightarrow> string list" where
  "handled1 s (Forwarded s' t m) = (if s' = s then [m] else [])"
| "handled1 s (Unrouted s' m) = (if s' = s then [m] else [])"
| "handled1 s _ = []"

fun forwarded1 :: "flow_event \<Rightarrow> (sock \<times> string) list" where
  "forwarded1 (Forwarded s t m) = [(t, m)]"
| "forwarded1 _ = []"

fun taken1 :: "flow_event \<Rightarrow> (sock \<times> string) list" where
  "taken1 (Taken t m) = [(t, m)]"
| "taken1 _ = []"

fun finished1 :: "flow_event \<Rightarrow> (sock \<times> string) list" where
  "finished1 (Delivered t m) = [(t, m)]"
| "finished1 (Failed t m) = [(t, m)]"
| "finished1 (Gone t m) = [(t, m)]"
| "finished1 _ = []"

text \<open>The messages received from a socket, those of them that were forwarded or dropped, and the
  tasks that went into the write queue, came out of it, and were done, each in the order of the run.\<close>

definition received :: "sock \<Rightarrow> flow_event list \<Rightarrow> string list" where
  "received s es = concat (map (received1 s) es)"

definition handled :: "sock \<Rightarrow> flow_event list \<Rightarrow> string list" where
  "handled s es = concat (map (handled1 s) es)"

definition forwarded :: "flow_event list \<Rightarrow> (sock \<times> string) list" where
  "forwarded es = concat (map forwarded1 es)"

definition taken :: "flow_event list \<Rightarrow> (sock \<times> string) list" where
  "taken es = concat (map taken1 es)"

definition finished :: "flow_event list \<Rightarrow> (sock \<times> string) list" where
  "finished es = concat (map finished1 es)"

lemmas flow_reading = received_def handled_def forwarded_def taken_def finished_def

section \<open>Messages in the hands of the workers\<close>

fun carry :: "sock \<Rightarrow> pc \<Rightarrow> string list" where
  "carry s (R_route s' l r m v) = (if s' = s then [m] else [])"
| "carry s (R_push s' l r m d) = (if s' = s then [m] else [])"
| "carry s _ = []"

definition carried :: "sock \<Rightarrow> 'w threads \<Rightarrow> string list" where
  "carried s S = concat (map (\<lambda>i. carry s (pcs S i)) [0..<unat THREAD_COUNT])"

fun holding :: "pc \<Rightarrow> (sock \<times> string) multiset" where
  "holding (W_find t m) = {#(t, m)#}"
| "holding (W_lock t m l) = {#(t, m)#}"
| "holding (W_send t m l) = {#(t, m)#}"
| "holding _ = {#}"

definition in_hand :: "'w threads \<Rightarrow> (sock \<times> string) multiset" where
  "in_hand S = (\<Sum>i<unat THREAD_COUNT. holding (pcs S i))"

text \<open>The socket from which a read worker has or is about to have a message.\<close>

fun message_of :: "pc \<Rightarrow> sock option" where
  "message_of (R_msg s l r) = Some s"
| "message_of (R_route s l r m v) = Some s"
| "message_of (R_push s l r m d) = Some s"
| "message_of _ = None"

lemma message_ofE:
  assumes "message_of p = Some s" and "pc_ok st p"
  obtains l where "holds p = Some l" and "session_socket st l = Some s"
  using assms by (cases p) auto

lemma carry_message_of: "message_of p \<noteq> Some s \<Longrightarrow> carry s p = []"
  by (cases p) auto

lemma concat_single:
  assumes "i < n" and "\<And>j. j < n \<Longrightarrow> j \<noteq> i \<Longrightarrow> f j = []"
  shows "concat (map f [0..<n]) = f i"
proof -
  have e: "[0..<n] = [0..<i] @ i # [Suc i..<n]"
    using assms(1) by (metis le_add_diff_inverse less_imp_le_nat upt_add_eq_append upt_conv_Cons zero_le)
  have "concat (map f [0..<i]) = []" "concat (map f [Suc i..<n]) = []" using assms by auto
  then show ?thesis
    unfolding e by (simp only: map_append concat_append list.map concat.simps append_Nil append_Nil2)
qed

section \<open>One step\<close>

lemma work_queue:
  assumes "work pf api i p S = Some S'"
  shows "m_queue (write_queue (rt S)) @ forwarded (emits pf api i p S) =
    taken (emits pf api i p S) @ m_queue (write_queue (rt S'))"
  using assms
  by (cases p)
    (auto simp: flow_reading shake_step_def msg_step_def set_world_def set_sess_def forward_def m_queue_push Let_def
      dest: try_pop_queue split: option.splits prod.splits if_splits sum.splits)

lemma work_holding:
  assumes "work pf api i p S = Some S'"
  shows "mset (taken (emits pf api i p S)) + holding p =
    mset (finished (emits pf api i p S)) + holding (pcs S' i)"
  using assms
  by (cases p)
    (auto simp: flow_reading shake_step_def msg_step_def after_turn_def Let_def
      split: option.splits prod.splits if_splits sum.splits)

lemma work_carry:
  assumes "work pf api i p S = Some S'" and "\<forall>e. pcs S' i \<noteq> Thrown e"
  shows "carry s p @ received s (emits pf api i p S) = handled s (emits pf api i p S) @ carry s (pcs S' i)"
  using assms
  by (cases p)
    (auto simp: flow_reading shake_step_def msg_step_def after_turn_def Let_def
      split: option.splits prod.splits if_splits sum.splits)

lemma emits_message_of:
  "message_of p \<noteq> Some s \<Longrightarrow> received s (emits pf api i p S) = [] \<and> handled s (emits pf api i p S) = []"
  by (cases p) (auto simp: flow_reading split: option.splits prod.splits)

context router_os
begin

lemma message_of_unique:
  assumes inv: "threads_inv opened S" and "message_of (pcs S i) = Some s" and "message_of (pcs S j) = Some s"
  shows "i = j"
proof -
  obtain l where l: "holds (pcs S i) = Some l" "session_socket (sess (rt S)) l = Some s"
    using message_ofE [OF assms(2) known(1) [OF inv]] by blast
  obtain k where k: "holds (pcs S j) = Some k" "session_socket (sess (rt S)) k = Some s"
    using message_ofE [OF assms(3) known(1) [OF inv]] by blast
  have "k = l" using inv l(2) k(2) unfolding inv_parts by blast
  with mutex_exclusive [OF inv l(1)] k(1) show ?thesis by blast
qed

lemma carried_step:
  assumes inv: "threads_inv opened S" and i: "i < unat THREAD_COUNT"
    and st: "work pf api i (pcs S i) S = Some S'"
  shows "carried s S @ received s (emits pf api i (pcs S i) S) = handled s (emits pf api i (pcs S i) S) @ carried s S'"
proof -
  obtain p where p: "pcs S' = (pcs S)(i := p)" using work_pcs [OF st] by blast
  have "\<forall>e. pcs S' i \<noteq> Thrown e" using known(1) [OF inv_work [OF inv st], of i] by auto
  note step = work_carry [OF st this, of s]
  show ?thesis
  proof (cases "message_of (pcs S i) = Some s")
    case True
    then have "carry s (pcs S j) = []" if "j \<noteq> i" for j
      using message_of_unique [OF inv, of i s j] that carry_message_of [of "pcs S j" s] by blast
    then have "carried s S = carry s (pcs S i)" "carried s S' = carry s (pcs S' i)"
      unfolding carried_def using p by (simp_all add: concat_single [OF i])
    with step show ?thesis by simp
  next
    case False
    note none = emits_message_of [OF False, of pf api i S]
    with step carry_message_of [OF False] have "carry s (pcs S' i) = []" by simp
    then have "carry s (pcs S' j) = carry s (pcs S j)" for j
      using p carry_message_of [OF False] by (cases "j = i") auto
    then show ?thesis using none by (simp add: carried_def)
  qed
qed

lemma carried_short:
  assumes "threads_inv opened S"
  shows "length (carried s S) \<le> 1"
proof (cases "\<exists>i<unat THREAD_COUNT. carry s (pcs S i) \<noteq> []")
  case True
  then obtain i where i: "i < unat THREAD_COUNT" "message_of (pcs S i) = Some s"
    using carry_message_of by blast
  then have "carry s (pcs S j) = []" if "j \<noteq> i" for j
    using message_of_unique [OF assms, of i s j] that carry_message_of [of "pcs S j" s] by blast
  then have "carried s S = carry s (pcs S i)" unfolding carried_def using i by (intro concat_single) auto
  then show ?thesis by (cases "pcs S i") auto
next
  case False
  then have "carried s S = []" by (auto simp: carried_def)
  then show ?thesis by simp
qed

end

lemma in_hand_step:
  assumes i: "i < unat THREAD_COUNT" and st: "work pf api i (pcs S i) S = Some S'"
  shows "mset (taken (emits pf api i (pcs S i) S)) + in_hand S =
    mset (finished (emits pf api i (pcs S i) S)) + in_hand S'"
proof -
  let ?I = "{..<unat THREAD_COUNT}"
  have split: "(\<Sum>j\<in>?I. g j) = g i + (\<Sum>j\<in>?I - {i}. g j)" for g :: "nat \<Rightarrow> (sock \<times> string) multiset"
    using i by (intro sum.remove) simp_all
  obtain p where "pcs S' = (pcs S)(i := p)" using work_pcs [OF st] by blast
  then have "(\<Sum>j\<in>?I - {i}. holding (pcs S' j)) = (\<Sum>j\<in>?I - {i}. holding (pcs S j))"
    by (intro sum.cong) auto
  with work_holding [OF st] show ?thesis by (simp add: in_hand_def split add.assoc [symmetric])
qed

section \<open>Runs\<close>

lemma flow_append [simp]:
  "received s (es @ fs) = received s es @ received s fs" "handled s (es @ fs) = handled s es @ handled s fs"
  "forwarded (es @ fs) = forwarded es @ forwarded fs" "taken (es @ fs) = taken es @ taken fs"
  "finished (es @ fs) = finished es @ finished fs"
  by (simp_all add: flow_reading)

lemma event_queue: "event_step pf api server fds m S = Some S' \<Longrightarrow> write_queue (rt S') = write_queue (rt S)"
  by (cases "(pf, api, server, fds, m, S)" rule: event_step.cases)
    (auto simp: set_world_def set_sess_def split: prod.splits if_splits sum.splits)

text \<open>The account of a run: what is in the hands of the workers and in the queue is what came in and
  has not gone out.\<close>

definition accounted :: "flow_event list \<Rightarrow> 'w threads \<Rightarrow> bool" where
  "accounted es S \<longleftrightarrow>
     (\<forall>s. received s es = handled s es @ carried s S) \<and>
     forwarded es = taken es @ m_queue (write_queue (rt S)) \<and>
     mset (taken es) = mset (finished es) + in_hand S"

lemma accounted_start: "accounted [] (threads0 w)"
  by (auto simp: accounted_def flow_reading carried_def in_hand_def threads0_def router0_def squeue0_def
      intro!: sum.neutral)

context router_os
begin

lemma accounted_flow:
  assumes "flow pf api server (threads0 w) es S" and "SOCKET_ERROR \<notin> opened w"
  shows "accounted es S"
  using assms(1)
proof (induction rule: flow.induct)
  case flow_start
  show ?case by (rule accounted_start)
next
  case (flow_worker es S1 i S2)
  note inv = inv_reach [OF flow_reach [OF flow_worker.hyps(1)] assms(2)]
  let ?e = "emits pf api i (pcs S1 i) S1"
  have "received s (es @ ?e) = handled s (es @ ?e) @ carried s S2" for s
    using flow_worker.IH carried_step [OF inv flow_worker.hyps(2,3), of s] by (simp add: accounted_def)
  moreover have "forwarded (es @ ?e) = taken (es @ ?e) @ m_queue (write_queue (rt S2))"
    using flow_worker.IH work_queue [OF flow_worker.hyps(3)] by (simp add: accounted_def)
  moreover have "mset (taken (es @ ?e)) = mset (finished (es @ ?e)) + in_hand S2"
    using flow_worker.IH in_hand_step [OF flow_worker.hyps(2,3)] by (simp add: accounted_def ac_simps)
  ultimately show ?case by (simp add: accounted_def)
next
  case (flow_listener es S1 fds S2)
  with event_pcs [OF flow_listener.hyps(2)] event_queue [OF flow_listener.hyps(2)] show ?case
    by (simp add: accounted_def carried_def in_hand_def)
qed

end

lemma at_rest_empty: "at_rest S \<Longrightarrow> carried s S = [] \<and> in_hand S = {#} \<and> m_queue (write_queue (rt S)) = []"
  by (auto simp: at_rest_def carried_def in_hand_def intro!: sum.neutral)

end
