(* ===== verification/Thread_Routing.thy ===== *)
theory Thread_Routing
  imports Thread_Flow
begin

text \<open>
  Where the messages go. A session object keeps its socket for ever and its identifier from the
  moment it has one, so a message that a read worker forwards to the object it has looked up goes
  to a connection that is registered under the message's destination, although other threads run
  between the lookup and the push.
\<close>

section \<open>Sessions keep what they have\<close>

definition keeps_sessions :: "sessions \<Rightarrow> sessions \<Rightarrow> bool" where
  "keeps_sessions st st' \<longleftrightarrow>
     (\<forall>l s. session_socket st l = Some s \<longrightarrow> session_socket st' l = Some s) \<and>
     (\<forall>l. session_id st l \<noteq> NONE \<longrightarrow> session_id st' l = session_id st l)"

lemma keeps_sessions_refl [simp]: "keeps_sessions st st"
  by (simp add: keeps_sessions_def)

lemma keeps_sessions_remove [simp]: "keeps_sessions st (remove_locked s st)"
  by (simp add: keeps_sessions_def)

lemma session_id_socket: "session_id st l \<noteq> NONE \<Longrightarrow> session_socket st l \<noteq> None"
  by (auto simp: session_id_def session_socket_def split: option.splits)

lemma sess_forward [simp]: "sess (forward d m R) = sess R"
  by (simp add: forward_def split: option.splits)

context router_os
begin

lemma work_sessions:
  assumes inv: "threads_inv opened S" and st: "work pf api i (pcs S i) S = Some S'"
  shows "keeps_sessions (sess (rt S)) (sess (rt S'))"
proof (cases "pcs S i")
  case (R_add s l r v)
  then have l: "session_socket (sess (rt S)) l = Some s" "session_id (sess (rt S)) l = NONE"
    using known(1) [OF inv, of i] by simp_all
  have "session_id (add_node s v (sess (rt S))) k = session_id (sess (rt S)) k"
    if "session_id (sess (rt S)) k \<noteq> NONE" for k
  proof (rule session_id_add)
    show "sessions_by_socket (sess (rt S)) s \<noteq> Some k"
      using same_session [OF inv l(1), of k] l(2) that by auto
  qed
  then show ?thesis using st R_add by (auto simp: keeps_sessions_def)
qed (use st in \<open>auto simp: shake_step_def msg_step_def set_world_def Let_def
    split: option.splits prod.splits if_splits sum.splits\<close>)

lemma event_sessions:
  assumes inv: "threads_inv opened S" and st: "event_step pf api server fds (mpc S) S = Some S'"
  shows "keeps_sessions (sess (rt S)) (sess (rt S'))"
proof (cases "mpc S")
  case (M_register c ready)
  with st obtain st' where acc: "accept_client c (sess (rt S)) = Inr st'" and S': "sess (rt S') = st'"
    by (auto simp: set_sess_def split: sum.splits)
  have fresh: "store (sess (rt S)) (next_ref (sess (rt S))) = None"
    by (rule sessions_inv_fresh [OF known(2) [OF inv]])
  then have "session_socket (sess (rt S)) (next_ref (sess (rt S))) = None" by (simp add: session_socket_def)
  then show ?thesis
    using session_accept [OF acc fresh] session_id_socket unfolding S' keeps_sessions_def by auto
next
  case (M_push ss)
  with st show ?thesis by (cases ss) (auto split: if_splits)
qed (use st in \<open>auto simp: set_world_def split: prod.splits if_splits\<close>)

end

section \<open>What a read worker knows of the destination\<close>

definition destination :: "string \<Rightarrow> int" where
  "destination m = parse_id (drop 29 m)"

fun dest_ok :: "sessions \<Rightarrow> pc \<Rightarrow> bool" where
  "dest_ok st (R_route s l r m v) \<longleftrightarrow> v = destination m"
| "dest_ok st (R_push s l r m d) \<longleftrightarrow> destination m = NONE \<or> session_id st d = destination m"
| "dest_ok st _ \<longleftrightarrow> True"

text \<open>The connection \<open>t\<close> has the identifier to which \<open>m\<close> is addressed. The value \<open>NONE\<close> stands for
  an unreadable destination, for which the router may have an entry of its own.\<close>

definition registered_for :: "sessions \<Rightarrow> sock \<Rightarrow> string \<Rightarrow> bool" where
  "registered_for st t m \<longleftrightarrow> destination m = NONE \<or>
     (\<exists>l. session_socket st l = Some t \<and> session_id st l = destination m)"

lemma registered_for_kept: "registered_for st t m \<Longrightarrow> keeps_sessions st st' \<Longrightarrow> registered_for st' t m"
  unfolding registered_for_def keeps_sessions_def by metis

lemma dest_ok_kept: "dest_ok st p \<Longrightarrow> keeps_sessions st st' \<Longrightarrow> dest_ok st' p"
  by (cases p; simp add: keeps_sessions_def) metis

lemma dest_ok_after_turn [simp]: "dest_ok st (after_turn k s l r)"
  by (simp add: after_turn_def)

context router_os
begin

lemma msg_dest:
  assumes inv: "threads_inv opened S" and st: "msg_step pf api i s l r S = Some S'"
  shows "dest_ok st' (pcs S' i)"
proof -
  obtain k buf w where rd: "read_async pf api s (bufs S i) 32 (world (rt S)) = Some (k, buf, w)"
    using st by (auto simp: msg_step_def DATA_MESSAGE_SIZE_def split: option.splits)
  have l: "length (bufs S i) = RECV_BUFF_SIZE" using inv by (simp add: threads_inv_def)
  have "length buf = RECV_BUFF_SIZE" using read_async_frame(1) [OF rd] l by (simp add: RECV_BUFF_SIZE_def)
  then have "extract_dst_id (buf[32 := NUL]) 32 = Inr (parse_id (drop 29 (take 32 buf)))"
    by (simp add: terminate_split RECV_BUFF_SIZE_def extract_dst_id_parse del: drop_take)
  then show ?thesis
    using st rd by (auto simp: msg_step_def DATA_MESSAGE_SIZE_def Let_def destination_def
        simp del: drop_take split: if_splits)
qed

lemma work_dest:
  assumes inv: "threads_inv opened S" and st: "work pf api i (pcs S i) S = Some S'"
    and ok: "dest_ok (sess (rt S)) (pcs S i)"
  shows "dest_ok (sess (rt S')) (pcs S' i)"
proof (cases "pcs S i")
  case (R_msg s l r)
  with msg_dest [OF inv] st show ?thesis by simp
next
  case (R_route s l r m v)
  show ?thesis
  proof (cases "find_session_by_id v (sess (rt S))")
    case (Some d)
    then have "v \<noteq> NONE \<longrightarrow> session_id (sess (rt S)) d = v"
      using sessions_inv_id [OF known(2) [OF inv], of v d]
      by (auto simp: find_session_by_id_def session_id_def get_id_def)
    with R_route Some st ok show ?thesis by auto
  qed (use R_route st in auto)
qed (use st in \<open>auto simp: shake_step_def Let_def split: option.splits prod.splits if_splits sum.splits\<close>)

lemma forwarded_step:
  assumes inv: "threads_inv opened S" and ok: "dest_ok (sess (rt S)) (pcs S i)"
    and "(t, m) \<in> set (forwarded (emits pf api i (pcs S i) S))"
  shows "registered_for (sess (rt S)) t m"
  using assms(2,3)
  by (cases "pcs S i") (auto simp: flow_reading registered_for_def split: option.splits prod.splits if_splits)

lemma flow_destinations:
  assumes "flow pf api server (threads0 w) es S" and "SOCKET_ERROR \<notin> opened w"
  shows "(\<forall>i. dest_ok (sess (rt S)) (pcs S i)) \<and> (\<forall>(t, m)\<in>set (forwarded es). registered_for (sess (rt S)) t m)"
  using assms(1)
proof (induction rule: flow.induct)
  case flow_start
  show ?case by (simp add: threads0_def flow_reading)
next
  case (flow_worker es S1 i S2)
  note inv = inv_reach [OF flow_reach [OF flow_worker.hyps(1)] assms(2)]
  note kept = work_sessions [OF inv flow_worker.hyps(3)]
  obtain p where p: "pcs S2 = (pcs S1)(i := p)" using work_pcs [OF flow_worker.hyps(3)] by blast
  have "dest_ok (sess (rt S2)) (pcs S2 j)" for j
    using flow_worker.IH work_dest [OF inv flow_worker.hyps(3)] dest_ok_kept [OF _ kept] p
    by (cases "j = i") auto
  then show ?case
    using flow_worker.IH forwarded_step [OF inv, of i _ _ pf] registered_for_kept [OF _ kept] by fastforce
next
  case (flow_listener es S1 fds S2)
  note inv = inv_reach [OF flow_reach [OF flow_listener.hyps(1)] assms(2)]
  note kept = event_sessions [OF inv flow_listener.hyps(2)]
  show ?case
    using flow_listener.IH dest_ok_kept [OF _ kept] registered_for_kept [OF _ kept]
      event_pcs [OF flow_listener.hyps(2)] by fastforce
qed

text \<open>A message that was delivered had been received before, and went to its destination.\<close>

lemma delivered_origin:
  assumes fl: "flow pf api server (threads0 w) es S" and ok: "SOCKET_ERROR \<notin> opened w"
    and d: "Delivered t m \<in> set es"
  shows "(\<exists>s. Received s m \<in> set es) \<and> registered_for (sess (rt S)) t m"
proof -
  note acc = accounted_flow [OF fl ok]
  have "(t, m) \<in># mset (finished es)" using d by (force simp: finished_def)
  then have "(t, m) \<in># mset (taken es)" using acc by (simp add: accounted_def)
  then have fw: "(t, m) \<in> set (forwarded es)" using acc by (simp add: accounted_def)
  then obtain e where e: "e \<in> set es" "(t, m) \<in> set (forwarded1 e)" by (auto simp: forwarded_def)
  from e(2) obtain s where "e = Forwarded s t m" by (cases e) auto
  with e(1) have "m \<in> set (handled s es)" by (force simp: handled_def)
  then have "m \<in> set (received s es)" using acc by (simp add: accounted_def)
  then obtain e' where e': "e' \<in> set es" "m \<in> set (received1 s e')" by (auto simp: received_def)
  from e'(2) have "e' = Received s m" by (cases e') (auto split: if_splits)
  with e'(1) flow_destinations [OF fl ok] fw show ?thesis by blast
qed

end

end
