(* ===== verification/Thread_Waiting.thy ===== *)
theory Thread_Waiting
  imports Thread_Rest
begin

text \<open>
  The threads with the waiting of \<^verbatim>\<open>SignalingQueue::pop\<close>. In \<open>Router_Threads\<close> a worker that finds
  its queue empty simply cannot step; here it goes to sleep in \<^verbatim>\<open>m_cond.wait\<close>, a push wakes a
  sleeping worker, which has to look at the queue again, and workers may wake up without a reason.
  The state has, besides the threads, the set of the workers inside \<^verbatim>\<open>wait\<close>. Forgetting the waiting
  turns every step into one of \<open>Router_Threads\<close> or into nothing, and no worker sleeps while there is
  work that nobody is on the way to.
\<close>

section \<open>Steps\<close>

fun is_pop :: "pc \<Rightarrow> bool" where
  "is_pop R_pop \<longleftrightarrow> True"
| "is_pop W_pop \<longleftrightarrow> True"
| "is_pop _ \<longleftrightarrow> False"

definition pop_by :: "bool \<Rightarrow> 'a squeue \<Rightarrow> 'a option \<times> 'a squeue" where
  "pop_by resumed q = (if resumed then pop_resume q else pop_enter q)"

text \<open>A worker at its queue calls \<^verbatim>\<open>pop\<close> or comes back from sleeping in it: the new state, and
  whether it got an element.\<close>

fun pop_at :: "bool \<Rightarrow> nat \<Rightarrow> pc \<Rightarrow> 'w threads \<Rightarrow> 'w threads \<times> bool" where
  "pop_at resumed i R_pop S =
     (case pop_by resumed (read_queue (rt S)) of
        (Some s, q) \<Rightarrow> (goto i (R_find s) (S\<lparr>rt := (rt S)\<lparr>read_queue := q\<rparr>\<rparr>), True)
      | (None, q) \<Rightarrow> (S\<lparr>rt := (rt S)\<lparr>read_queue := q\<rparr>\<rparr>, False))"
| "pop_at resumed i W_pop S =
     (case pop_by resumed (write_queue (rt S)) of
        (Some t, q) \<Rightarrow> (goto i (W_find (fst t) (snd t)) (S\<lparr>rt := (rt S)\<lparr>write_queue := q\<rparr>\<rparr>), True)
      | (None, q) \<Rightarrow> (S\<lparr>rt := (rt S)\<lparr>write_queue := q\<rparr>\<rparr>, False))"
| "pop_at resumed i _ S = (S, False)"

fun woken_at :: "pc \<Rightarrow> 'w threads \<Rightarrow> nat" where
  "woken_at R_pop S = woken (read_queue (rt S))"
| "woken_at W_pop S = woken (write_queue (rt S))"
| "woken_at _ S = 0"

text \<open>A wake-up without a reason.\<close>

definition spurious :: "'a squeue \<Rightarrow> 'a squeue" where
  "spurious q = q\<lparr>sleeping := sleeping q - 1, woken := Suc (woken q)\<rparr>"

inductive wait_step ::
    "platform \<Rightarrow> ('w, 'f, 'x) server_api_scheme \<Rightarrow> sock \<Rightarrow> 'w threads \<Rightarrow> nat set \<Rightarrow> 'w threads \<Rightarrow> nat set \<Rightarrow> bool"
  for pf api server where
  wait_work: "i < unat THREAD_COUNT \<Longrightarrow> \<not> is_pop (pcs S i) \<Longrightarrow> work pf api i (pcs S i) S = Some S' \<Longrightarrow>
    wait_step pf api server S A S' A"
| wait_enter: "i < unat THREAD_COUNT \<Longrightarrow> i \<notin> A \<Longrightarrow> is_pop (pcs S i) \<Longrightarrow> pop_at False i (pcs S i) S = (S', got) \<Longrightarrow>
    wait_step pf api server S A S' (if got then A else insert i A)"
| wait_resume: "i \<in> A \<Longrightarrow> 0 < woken_at (pcs S i) S \<Longrightarrow> pop_at True i (pcs S i) S = (S', got) \<Longrightarrow>
    wait_step pf api server S A S' (if got then A - {i} else A)"
| wait_spurious_read: "0 < sleeping (read_queue (rt S)) \<Longrightarrow>
    wait_step pf api server S A (S\<lparr>rt := (rt S)\<lparr>read_queue := spurious (read_queue (rt S))\<rparr>\<rparr>) A"
| wait_spurious_write: "0 < sleeping (write_queue (rt S)) \<Longrightarrow>
    wait_step pf api server S A (S\<lparr>rt := (rt S)\<lparr>write_queue := spurious (write_queue (rt S))\<rparr>\<rparr>) A"
| wait_listen: "event_step pf api server fds (mpc S) S = Some S' \<Longrightarrow> wait_step pf api server S A S' A"

inductive wait_reach ::
    "platform \<Rightarrow> ('w, 'f, 'x) server_api_scheme \<Rightarrow> sock \<Rightarrow> 'w \<Rightarrow> 'w threads \<Rightarrow> nat set \<Rightarrow> bool"
  for pf api server w where
  wait_initial: "wait_reach pf api server w (threads0 w) {}"
| wait_later: "wait_reach pf api server w S A \<Longrightarrow> wait_step pf api server S A S' A' \<Longrightarrow>
    wait_reach pf api server w S' A'"

section \<open>Forgetting the waiting\<close>

definition calm_queue :: "'a squeue \<Rightarrow> 'a squeue" where
  "calm_queue q = q\<lparr>sleeping := 0, woken := 0\<rparr>"

definition calm_router :: "'w router \<Rightarrow> 'w router" where
  "calm_router R = R\<lparr>read_queue := calm_queue (read_queue R), write_queue := calm_queue (write_queue R)\<rparr>"

definition calm :: "'w threads \<Rightarrow> 'w threads" where
  "calm S = S\<lparr>rt := calm_router (rt S)\<rparr>"

lemma calm_queue_simps [simp]:
  "m_queue (calm_queue q) = m_queue q" "calm_queue (spurious q) = calm_queue q"
  "calm_queue (q\<lparr>sleeping := a\<rparr>) = calm_queue q" "calm_queue (q\<lparr>woken := b\<rparr>) = calm_queue q"
  by (simp_all add: calm_queue_def spurious_def)

lemma calm_push [simp]: "calm_queue (push x skip q) = push x skip (calm_queue q)"
  by (simp add: calm_queue_def push_def notify_one_def)

lemma try_pop_calm: "try_pop (calm_queue q) = map_option (map_prod id calm_queue) (try_pop q)"
  by (simp add: calm_queue_def try_pop_def split: list.split)

lemma calm_router_simps [simp]:
  "sess (calm_router R) = sess R" "world (calm_router R) = world R"
  "read_queue (calm_router R) = calm_queue (read_queue R)" "write_queue (calm_router R) = calm_queue (write_queue R)"
  "calm_router (R\<lparr>sess := st\<rparr>) = (calm_router R)\<lparr>sess := st\<rparr>"
  "calm_router (R\<lparr>world := w\<rparr>) = (calm_router R)\<lparr>world := w\<rparr>"
  "calm_router (R\<lparr>read_queue := rq\<rparr>) = (calm_router R)\<lparr>read_queue := calm_queue rq\<rparr>"
  "calm_router (R\<lparr>write_queue := wq\<rparr>) = (calm_router R)\<lparr>write_queue := calm_queue wq\<rparr>"
  "calm_router (forward d m R) = forward d m (calm_router R)"
  by (simp_all add: calm_router_def forward_def split: option.split)

lemma calm_simps [simp]:
  "rt (calm S) = calm_router (rt S)" "pcs (calm S) = pcs S" "bufs (calm S) = bufs S"
  "owner (calm S) = owner S" "mpc (calm S) = mpc S"
  "calm (goto i p S) = goto i p (calm S)" "calm (set_sess st S) = set_sess st (calm S)"
  "calm (set_world w S) = set_world w (calm S)" "calm (S\<lparr>owner := f\<rparr>) = (calm S)\<lparr>owner := f\<rparr>"
  "calm (S\<lparr>bufs := g\<rparr>) = (calm S)\<lparr>bufs := g\<rparr>" "calm (S\<lparr>mpc := p'\<rparr>) = (calm S)\<lparr>mpc := p'\<rparr>"
  "calm (S\<lparr>rt := R\<rparr>) = (calm S)\<lparr>rt := calm_router R\<rparr>"
  by (simp_all add: calm_def goto_def set_sess_def set_world_def)

lemma work_calm: "work pf api i p S = Some S' \<Longrightarrow> \<not> is_pop p \<Longrightarrow> work pf api i p (calm S) = Some (calm S')"
  by (cases p)
    (auto simp: shake_step_def msg_step_def Let_def split: option.splits prod.splits if_splits sum.splits)

lemma event_calm: "event_step pf api server fds m S = Some S' \<Longrightarrow> event_step pf api server fds m (calm S) = Some (calm S')"
  by (cases "(pf, api, server, fds, m, S)" rule: event_step.cases)
    (auto split: prod.splits if_splits sum.splits)

lemma pop_by_calm:
  "pop_by b q = (x, q') \<Longrightarrow> case x of None \<Rightarrow> calm_queue q' = calm_queue q | Some y \<Rightarrow>
     try_pop (calm_queue q) = Some (y, calm_queue q')"
  by (auto simp: pop_by_def pop_resume_def pop_enter_def try_pop_calm try_pop_def calm_queue_def
      split: if_splits list.splits option.splits)

lemma calm_router_same:
  "calm_queue rq = calm_queue (read_queue R) \<Longrightarrow> (calm_router R)\<lparr>read_queue := calm_queue rq\<rparr> = calm_router R"
  "calm_queue wq = calm_queue (write_queue R) \<Longrightarrow> (calm_router R)\<lparr>write_queue := calm_queue wq\<rparr> = calm_router R"
  by (simp_all add: calm_router_def)

lemma calm_rt_same [simp]: "(calm S)\<lparr>rt := calm_router (rt S)\<rparr> = calm S"
  by (simp add: calm_def)

lemma pop_at_calm:
  assumes "is_pop p" and "pop_at b i p S = (S', got)"
  shows "if got then work pf api i p (calm S) = Some (calm S') else calm S' = calm S"
  using assms pop_by_calm [of b "read_queue (rt S)"] pop_by_calm [of b "write_queue (rt S)"]
  by (cases p) (auto simp: calm_router_same split: prod.splits option.splits)

section \<open>The invariant of the waiting\<close>

definition sleepers :: "nat set \<Rightarrow> 'w threads \<Rightarrow> pc \<Rightarrow> nat" where
  "sleepers A S p = card {i\<in>A. pcs S i = p}"

definition wait_inv :: "'w threads \<Rightarrow> nat set \<Rightarrow> bool" where
  "wait_inv S A \<longleftrightarrow> A \<subseteq> {..<unat THREAD_COUNT} \<and> (\<forall>i\<in>A. is_pop (pcs S i)) \<and>
     sq_inv (read_queue (rt S)) \<and> sq_inv (write_queue (rt S)) \<and>
     sleeping (read_queue (rt S)) + woken (read_queue (rt S)) = sleepers A S R_pop \<and>
     sleeping (write_queue (rt S)) + woken (write_queue (rt S)) = sleepers A S W_pop"

text \<open>A queue that only gets elements keeps the number of the threads inside \<^verbatim>\<open>wait\<close>.\<close>

definition same_waiting :: "'a squeue \<Rightarrow> 'a squeue \<Rightarrow> bool" where
  "same_waiting q q' \<longleftrightarrow> sleeping q' + woken q' = sleeping q + woken q \<and> (sq_inv q \<longrightarrow> sq_inv q')"

lemma same_waiting_refl [simp]: "same_waiting q q"
  by (simp add: same_waiting_def)

lemma same_waiting_push [simp]: "same_waiting q (push x skip q)"
  using sq_step_inv [OF sq_push [of q x skip]] by (auto simp: same_waiting_def push_def notify_one_def)

lemma same_waiting_spurious: "0 < sleeping q \<Longrightarrow> same_waiting q (spurious q)"
  using sq_step_inv [OF sq_spurious [of q]] by (auto simp: same_waiting_def spurious_def)

lemma work_waiting:
  assumes "work pf api i p S = Some S'" and "\<not> is_pop p"
  shows "same_waiting (read_queue (rt S)) (read_queue (rt S')) \<and> same_waiting (write_queue (rt S)) (write_queue (rt S'))"
  using assms
  by (cases p) (auto simp: shake_step_def msg_step_def set_world_def set_sess_def forward_def Let_def
      split: option.splits prod.splits if_splits sum.splits)

lemma event_waiting:
  "event_step pf api server fds m S = Some S' \<Longrightarrow>
   same_waiting (read_queue (rt S)) (read_queue (rt S')) \<and> same_waiting (write_queue (rt S)) (write_queue (rt S'))"
  by (cases "(pf, api, server, fds, m, S)" rule: event_step.cases)
    (auto simp: set_world_def set_sess_def split: prod.splits if_splits sum.splits)

lemma wait_inv_same:
  assumes "wait_inv S A" and "\<forall>i\<in>A. pcs S' i = pcs S i"
    and "same_waiting (read_queue (rt S)) (read_queue (rt S'))" "same_waiting (write_queue (rt S)) (write_queue (rt S'))"
  shows "wait_inv S' A"
proof -
  have "sleepers A S' p = sleepers A S p" for p
    using assms(2) unfolding sleepers_def by (intro arg_cong [of _ _ card]) auto
  with assms show ?thesis by (auto simp: wait_inv_def same_waiting_def)
qed

text \<open>What \<^verbatim>\<open>pop\<close> does to the threads inside \<^verbatim>\<open>wait\<close>.\<close>

lemma pop_by_waiting:
  assumes "pop_by b q = (x, q')" and "b \<Longrightarrow> 0 < woken q" and "sq_inv q"
  shows "sq_inv q'" and "sleeping q' + woken q' + of_bool (b \<and> x \<noteq> None) =
    sleeping q + woken q + of_bool (\<not> b \<and> x = None)"
proof -
  show "sq_inv q'"
    using sq_step_inv [OF sq_pop [of q]] sq_step_inv [OF sq_resume [of q]] assms
    by (cases b) (auto simp: pop_by_def)
  show "sleeping q' + woken q' + of_bool (b \<and> x \<noteq> None) = sleeping q + woken q + of_bool (\<not> b \<and> x = None)"
    using assms(1,2)
    by (cases b) (auto simp: pop_by_def pop_resume_def pop_enter_def try_pop_def split: list.splits)
qed

lemma sleepers_insert:
  "finite A \<Longrightarrow> i \<notin> A \<Longrightarrow> sleepers (insert i A) S p = sleepers A S p + of_bool (pcs S i = p)"
proof -
  assume "finite A" "i \<notin> A"
  moreover have "{j\<in>insert i A. pcs S j = p} = (if pcs S i = p then insert i {j\<in>A. pcs S j = p} else {j\<in>A. pcs S j = p})"
    by auto
  ultimately show ?thesis by (simp add: sleepers_def)
qed

lemma sleepers_goto: "i \<notin> A \<Longrightarrow> sleepers A (goto i p' S) p = sleepers A S p"
  unfolding sleepers_def by (intro arg_cong [of _ _ card]) auto

lemma sleepers_remove:
  "finite A \<Longrightarrow> i \<in> A \<Longrightarrow> sleepers A S p = sleepers (A - {i}) S p + of_bool (pcs S i = p)"
  using sleepers_insert [of "A - {i}" i S p] by (simp add: insert_absorb)

lemma sleepers_rt [simp]: "sleepers A (S\<lparr>rt := R\<rparr>) p = sleepers A S p"
  by (simp add: sleepers_def)

lemma wait_inv_enter:
  assumes inv: "wait_inv S A" and i: "i < unat THREAD_COUNT" "i \<notin> A" "is_pop (pcs S i)"
    and pop: "pop_at False i (pcs S i) S = (S', got)"
  shows "wait_inv S' (if got then A else insert i A)"
proof -
  have fin: "finite A" using inv finite_subset by (auto simp: wait_inv_def)
  note sl = sleepers_insert [OF fin i(2)] sleepers_goto [OF i(2)]
  show ?thesis
  proof (cases "pcs S i")
    case R_pop
    obtain x q where x: "pop_by False (read_queue (rt S)) = (x, q)" by fastforce
    from pop_by_waiting [OF x] inv R_pop pop x i show ?thesis
      by (cases x) (auto simp: wait_inv_def sl)
  next
    case W_pop
    obtain x q where x: "pop_by False (write_queue (rt S)) = (x, q)" by fastforce
    from pop_by_waiting [OF x] inv W_pop pop x i show ?thesis
      by (cases x) (auto simp: wait_inv_def sl)
  qed (use i(3) in simp_all)
qed

lemma wait_inv_resume:
  assumes inv: "wait_inv S A" and i: "i \<in> A" "0 < woken_at (pcs S i) S"
    and pop: "pop_at True i (pcs S i) S = (S', got)"
  shows "wait_inv S' (if got then A - {i} else A)"
proof -
  have fin: "finite A" using inv finite_subset by (auto simp: wait_inv_def)
  have pops: "\<forall>j\<in>A - {i}. is_pop (((pcs S)(i := p)) j)" for p using inv by (simp add: wait_inv_def)
  have sub: "A - {i} \<subseteq> {..<unat THREAD_COUNT}" using inv by (auto simp: wait_inv_def)
  show ?thesis
  proof (cases "pcs S i")
    case R_pop
    obtain x q where x: "pop_by True (read_queue (rt S)) = (x, q)" by fastforce
    have "0 < woken (read_queue (rt S))" "sq_inv (read_queue (rt S))" using i(2) R_pop inv by (simp_all add: wait_inv_def)
    note pw = pop_by_waiting [OF x this]
    show ?thesis
    proof (cases x)
      case None
      with pop x R_pop have "S' = S\<lparr>rt := (rt S)\<lparr>read_queue := q\<rparr>\<rparr>" "\<not> got" by auto
      with pw None inv show ?thesis by (simp add: wait_inv_def)
    next
      case (Some y)
      with pop x R_pop have S': "S' = goto i (R_find y) (S\<lparr>rt := (rt S)\<lparr>read_queue := q\<rparr>\<rparr>)" "got" by auto
      have "sleepers (A - {i}) S' p = sleepers (A - {i}) S p" for p using S' by (simp add: sleepers_goto)
      with pw Some inv sub pops R_pop S' sleepers_remove [OF fin i(1), of S] show ?thesis
        by (simp add: wait_inv_def del: fun_upd_apply)
    qed
  next
    case W_pop
    obtain x q where x: "pop_by True (write_queue (rt S)) = (x, q)" by fastforce
    have "0 < woken (write_queue (rt S))" "sq_inv (write_queue (rt S))" using i(2) W_pop inv by (simp_all add: wait_inv_def)
    note pw = pop_by_waiting [OF x this]
    show ?thesis
    proof (cases x)
      case None
      with pop x W_pop have "S' = S\<lparr>rt := (rt S)\<lparr>write_queue := q\<rparr>\<rparr>" "\<not> got" by auto
      with pw None inv show ?thesis by (simp add: wait_inv_def)
    next
      case (Some y)
      with pop x W_pop have S': "S' = goto i (W_find (fst y) (snd y)) (S\<lparr>rt := (rt S)\<lparr>write_queue := q\<rparr>\<rparr>)" "got" by auto
      have "sleepers (A - {i}) S' p = sleepers (A - {i}) S p" for p using S' by (simp add: sleepers_goto)
      with pw Some inv sub pops W_pop S' sleepers_remove [OF fin i(1), of S] show ?thesis
        by (simp add: wait_inv_def del: fun_upd_apply)
    qed
  qed (use i(2) in simp_all)
qed

lemma wait_inv_step:
  assumes "wait_step pf api server S A S' A'" and inv: "wait_inv S A"
  shows "wait_inv S' A'"
  using assms(1)
proof cases
  case (wait_work i)
  obtain p where p: "pcs S' = (pcs S)(i := p)" using work_pcs [OF wait_work(4)] by blast
  have "i \<notin> A" using inv wait_work(3) by (auto simp: wait_inv_def)
  with p have "\<forall>j\<in>A. pcs S' j = pcs S j" by auto
  then show ?thesis using wait_inv_same [OF inv] work_waiting [OF wait_work(4,3)] wait_work(1) by blast
next
  case (wait_enter i got)
  with wait_inv_enter [OF inv] show ?thesis by blast
next
  case (wait_resume i got)
  with wait_inv_resume [OF inv] show ?thesis by blast
next
  case wait_spurious_read
  with wait_inv_same [OF inv, of S'] same_waiting_spurious show ?thesis by force
next
  case wait_spurious_write
  with wait_inv_same [OF inv, of S'] same_waiting_spurious show ?thesis by force
next
  case (wait_listen fds)
  with wait_inv_same [OF inv, of S'] event_waiting [OF wait_listen(2)] event_pcs [OF wait_listen(2)] show ?thesis
    by simp
qed

section \<open>Consequences\<close>

lemma wait_reach_inv: "wait_reach pf api server w S A \<Longrightarrow> wait_inv S A"
proof (induction rule: wait_reach.induct)
  case wait_initial
  show ?case by (simp add: wait_inv_def threads0_def router0_def squeue0_def sq_inv_def sleepers_def)
next
  case (wait_later S A S' A')
  then show ?case by (blast intro: wait_inv_step)
qed

lemma wait_step_calm:
  assumes "wait_step pf api server S A S' A'" and inv: "wait_inv S A"
  shows "calm S' = calm S \<or> thread_step pf api server (calm S) (calm S')"
  using assms(1)
proof cases
  case (wait_work i)
  with work_calm [OF wait_work(4,3)] show ?thesis by (auto intro: worker)
next
  case (wait_enter i got)
  with pop_at_calm [OF wait_enter(4,5), of pf api] show ?thesis by (cases got) (auto intro: worker)
next
  case (wait_resume i got)
  have "i < unat THREAD_COUNT" "is_pop (pcs S i)" using inv wait_resume(2) by (auto simp: wait_inv_def)
  with pop_at_calm [OF this(2) wait_resume(4), of pf api] show ?thesis by (cases got) (auto intro: worker)
next
  case (wait_listen fds)
  with event_calm [OF wait_listen(2)] show ?thesis by (auto intro: listener)
qed (auto simp: calm_router_same)

lemma calm_threads0: "calm (threads0 w) = threads0 w"
  by (simp add: calm_def threads0_def calm_router_def calm_queue_def router0_def squeue0_def)

lemma wait_reach_calm: "wait_reach pf api server w S A \<Longrightarrow> thread_reach pf api server w (calm S)"
proof (induction rule: wait_reach.induct)
  case wait_initial
  show ?case by (simp add: calm_threads0 initial)
next
  case (wait_later S A S' A')
  with wait_step_calm [OF wait_later.hyps(2) wait_reach_inv [OF wait_later.hyps(1)]] show ?case
    by (auto intro: later)
qed

text \<open>While a queue has elements, one of its workers is awake, or has been woken and is still inside
  \<^verbatim>\<open>wait\<close>.\<close>

lemma someone_comes:
  assumes q: "sq_inv q" "m_queue q \<noteq> []" and "finite J" and "J \<noteq> {}" and "\<forall>i\<in>J. i \<in> A \<longrightarrow> pcs S i = p"
    and n: "sleeping q + woken q = sleepers A S p" and fin: "finite A"
  shows "\<exists>i\<in>J. i \<notin> A \<or> pcs S i = p \<and> 0 < woken q"
proof (cases "J \<subseteq> A")
  case True
  then obtain i where i: "i \<in> J" "i \<in> A" "pcs S i = p" using assms(4,5) by blast
  then have "sleepers A S p \<noteq> 0" using fin by (auto simp: sleepers_def)
  with n q have "0 < woken q" by (cases "m_queue q") (auto simp: sq_inv_def)
  with i show ?thesis by blast
qed blast

end
