(* ===== verification/Startup.thy ===== *)
theory Startup
  imports Thread_Rest
begin

text \<open>
  From \<^verbatim>\<open>main\<close> to the threads: the state in which \<^verbatim>\<open>Router::start\<close> enters its event loop is the one
  from which \<open>Router_Threads\<close> runs, with one program counter for each thread that was created, so
  that what is proved of all schedules holds of the program.
\<close>

section \<open>Opening the listening socket\<close>

locale start_os = router_os api opened
  for api :: "('w, 'f, 'x) server_api_scheme" and opened +
  assumes startup_opened: "api_startup api w = (r, w') \<Longrightarrow> opened w' = opened w"
    and socket_opened: "api_socket api w = (s, w') \<Longrightarrow>
      s = -1 \<and> opened w' = opened w \<or> 0 \<le> s \<and> s \<notin> opened w \<and> opened w' = insert s (opened w)"
    and bind_opened: "api_bind api s a p w = (r, w') \<Longrightarrow> opened w' = opened w"
    and listen_opened: "api_listen api s k w = (r, w') \<Longrightarrow> opened w' = opened w"
begin

lemma start_tcp_server_opened:
  assumes "start_tcp_server pf api port w = (s, w')" and "SOCKET_ERROR \<notin> opened w"
  shows "SOCKET_ERROR \<notin> opened w' \<and> (s = SOCKET_ERROR \<or> 0 \<le> s \<and> s \<in> opened w')"
proof -
  obtain e w1 where su: "(if pf = Win32 then api_startup api w else (0, w)) = (e, w1)" by fastforce
  then have w1: "opened w1 = opened w" using startup_opened by (auto split: if_splits)
  obtain t w2 where so: "api_socket api w1 = (t, w2)" by fastforce
  obtain b w3 where bi: "api_bind api t (api_inet_pton api ''127.0.0.1'') (htons port) w2 = (b, w3)" by fastforce
  obtain c w4 where li: "api_listen api t 5 w3 = (c, w4)" by fastforce
  note eq = assms(1) [unfolded start_tcp_server_def su prod.case so bi li]
  show ?thesis
    using eq socket_opened [OF so] bind_opened [OF bi] listen_opened [OF li] w1 assms(2)
    by (auto simp: SOCKET_ERROR_def split: if_splits)
qed

end

interpretation net_start: start_os "net_server pf cap" "\<lambda>w. set (open_socks w)"
  by unfold_locales (auto simp: net_server_def net_socket_def net_fresh_new)

section \<open>The threads that were created\<close>

fun start_pc :: "worker \<Rightarrow> pc" where
  "start_pc (Read_worker i) = R_pop"
| "start_pc (Write_worker i) = W_pop"

lemma length_spawn_workers: "length (spawn_workers n) = unat n"
  by (auto simp: spawn_workers_def read_thread_count_def)

lemma spawn_workers_pcs:
  "i < unat THREAD_COUNT \<Longrightarrow> start_pc (spawn_workers THREAD_COUNT ! i) = pcs (threads0 w) i"
  by (auto simp: spawn_workers_def threads0_def nth_append)

lemma router_main_cases:
  assumes "router_main pf api argv w = Inr res"
  obtains (loop) server w' p where "res = Event_loop server (spawn_workers THREAD_COUNT) (router0 w')"
      and "start_tcp_server pf api p w = (server, w')" and "server \<noteq> SOCKET_ERROR"
  | (stop) w' where "res = Std_terminate w'"
proof -
  obtain p where rs: "Router_start pf api THREAD_COUNT p (router0 w) = res"
    using assms by (auto simp: router_main_def split: if_splits sum.splits start_result.splits)
  obtain server w' where st: "start_tcp_server pf api (sint p) w = (server, w')" by fastforce
  have "spawn_workers THREAD_COUNT \<noteq> []" using length_spawn_workers [of THREAD_COUNT] by (auto simp: THREAD_COUNT_def)
  then show thesis
    using rs st that by (auto simp: Router_start_def router0_def init_sessions_def Let_def split: if_splits)
qed

end
