(* ===== verification/Flow_Properties.thy ===== *)
theory Flow_Properties
  imports Thread_Properties Thread_Routing Thread_Waiting Startup
begin

text \<open>
  The properties of the messages on their way through the threads, and of the program from
  \<^verbatim>\<open>main\<close> to its threads.
\<close>

section \<open>A sample run\<close>








text \<open>A node that connects, identifies itself as 7 and sends a message to itself: the event loop
  accepts it and queues its socket, a reader registers it and forwards the message, and a writer
  delivers it.\<close>

definition echo_net :: net where
  "echo_net = (sample_net (\<lambda>_. []) Open)
     \<lparr>open_socks := [3], backlog := [[''007'', ''00722001234561111111111111111007'']]\<rparr>"







abbreviation "echo_msg \<equiv> ''00722001234561111111111111111007''"


lemma echo_net_fds: "SOCKET_ERROR \<notin> set (open_socks echo_net)"
  by (simp add: echo_net_def SOCKET_ERROR_def)

section \<open>No message is lost\<close>





section \<open>Waiting at the queues\<close>

text \<open>C18: The threads with the condition variables of their queues do what the threads with blocking
  queues do: whatever sleeping, waking and spurious waking there is, forgetting it leads to a state
  that \<open>Router_Threads\<close> reaches. And nobody sleeps through work: while the read queue has an element,
  some reader is not inside \<^verbatim>\<open>wait\<close> or has been woken there, and the same holds of the write queue and
  the writers.\<close>

theorem waiting_refines_blocking:
  assumes "wait_reach pf api server w S A"
  shows "thread_reach pf api server w (calm S) \<and>
    (m_queue (read_queue (rt S)) \<noteq> [] \<longrightarrow> (\<exists>i<read_thread_count THREAD_COUNT. i \<notin> A \<or>
       pcs S i = R_pop \<and> 0 < woken (read_queue (rt S)))) \<and>
    (m_queue (write_queue (rt S)) \<noteq> [] \<longrightarrow> (\<exists>i<unat THREAD_COUNT. read_thread_count THREAD_COUNT \<le> i \<and>
       (i \<notin> A \<or> pcs S i = W_pop \<and> 0 < woken (write_queue (rt S)))))"
proof -
  note inv = wait_reach_inv [OF assms]
  note reach = wait_reach_calm [OF assms]
  have fin: "finite A" using inv finite_subset by (auto simp: wait_inv_def)
  let ?n = "read_thread_count THREAD_COUNT" and ?m = "unat THREAD_COUNT"
  have n: "{..<?n} \<noteq> {}" "{?n..<?m} \<noteq> {}" by (auto simp: read_thread_count_def THREAD_COUNT_def lessThan_empty_iff)
  have "pcs S i = (if i < ?n then R_pop else W_pop)" if "i \<in> A" for i
  proof -
    have "is_pop (pcs S i)" "write_pc (pcs S i) \<longleftrightarrow> ?n \<le> i"
      using that inv roles_reach [OF reach] by (simp_all add: wait_inv_def roles_def)
    then show ?thesis by (cases "pcs S i") auto
  qed
  then have "\<forall>i\<in>{..<?n}. i \<in> A \<longrightarrow> pcs S i = R_pop" "\<forall>i\<in>{?n..<?m}. i \<in> A \<longrightarrow> pcs S i = W_pop" by auto
  note pcs = this
  have "\<exists>i\<in>{..<?n}. i \<notin> A \<or> pcs S i = R_pop \<and> 0 < woken (read_queue (rt S))" if "m_queue (read_queue (rt S)) \<noteq> []"
    using someone_comes [OF _ that _ n(1) pcs(1) _ fin] inv by (simp add: wait_inv_def)
  moreover have "\<exists>i\<in>{?n..<?m}. i \<notin> A \<or> pcs S i = W_pop \<and> 0 < woken (write_queue (rt S))"
    if "m_queue (write_queue (rt S)) \<noteq> []"
    using someone_comes [OF _ that _ n(2) pcs(2) _ fin] inv by (simp add: wait_inv_def)
  ultimately show ?thesis using reach by (meson atLeastLessThan_iff lessThan_iff)
qed

definition asleep_state :: "net threads" where
  "asleep_state = fst (pop_at False 1 R_pop (fst (pop_at False 0 R_pop (threads0 start_net))))"

lemma asleep_reach: "wait_reach Win32 sample_api 3 start_net asleep_state {1, 0}"
proof -
  define S1 where "S1 = fst (pop_at False 0 R_pop (threads0 start_net))"
  have p0: "pop_at False 0 R_pop (threads0 start_net) = (S1, False)" "pcs S1 1 = R_pop"
    by (simp_all add: S1_def pop_by_def pop_enter_def exec_defs)
  have p1: "pop_at False 1 R_pop S1 = (asleep_state, False)"
    by (simp add: asleep_state_def S1_def [symmetric])
      (simp add: S1_def pop_by_def pop_enter_def exec_defs)
  have "wait_step Win32 sample_api 3 (threads0 start_net) {} S1 {0}"
    using wait_enter [of 0 "{}" "threads0 start_net" S1 False Win32 sample_api 3] p0(1)
    by (simp add: threads0_def read_thread_count_def THREAD_COUNT_def)
  moreover have "wait_step Win32 sample_api 3 S1 {0} asleep_state {1, 0}"
    using wait_enter [of 1 "{0}" S1 asleep_state False Win32 sample_api 3] p0(2) p1 by (simp add: THREAD_COUNT_def)
  ultimately show ?thesis by (blast intro: wait_initial wait_later)
qed

lemma exec_wait:
  "exec pf api server fds is S = Some S' \<Longrightarrow> set is \<subseteq> {None} \<Longrightarrow> wait_reach pf api server w S A \<Longrightarrow>
   wait_reach pf api server w S' A"
proof (induction pf api server fds "is" S rule: exec.induct)
  case (2 pf api server fds "is" S)
  then show ?case
    by (cases "event_step pf api server fds (mpc S) S") (auto intro: wait_later wait_listen)
qed simp_all

theorem waiting_refines_blocking_witness:
  "\<exists>S. wait_reach Win32 sample_api 3 start_net S {1, 0} \<and> m_queue (read_queue (rt S)) = [4] \<and>
     thread_reach Win32 sample_api 3 start_net (calm S) \<and> 0 < woken (read_queue (rt S))"
proof -
  let ?is = "[None, None, None, None, None, None, None, None, None]"
  have "map_option (\<lambda>S. m_queue (read_queue (rt S))) (exec Win32 sample_api 3 [] ?is asleep_state) = Some [4]"
    by (simp add: asleep_state_def pop_by_def pop_enter_def start_net_def sample_net_def exec_defs)
  then obtain S where e: "exec Win32 sample_api 3 [] ?is asleep_state = Some S" and q: "m_queue (read_queue (rt S)) = [4]"
    by auto
  have r: "wait_reach Win32 sample_api 3 start_net S {1, 0}" using exec_wait [OF e _ asleep_reach] by simp
  from waiting_refines_blocking [OF r] q r show ?thesis
    by (auto simp: read_thread_count_def THREAD_COUNT_def less_2_cases_iff)
qed

section \<open>From main to the threads\<close>

text \<open>C19: When \<^verbatim>\<open>main\<close> gets as far as the event loop, the state of the router is that from which the
  threads run, there is one worker for each thread that was created, at the start of its handler,
  and in every state that any schedule leads to no worker has been left by an exception, the tables
  are consistent and the event loop can go on.\<close>

theorem router_program_runs:
  assumes "start_os api opened" and "SOCKET_ERROR \<notin> opened w"
    and "router_main pf api argv w = Inr (Event_loop server workers R)"
  shows "rt (threads0 (world R)) = R \<and> server \<in> opened (world R) \<and> length workers = unat THREAD_COUNT \<and>
    (\<forall>i<length workers. pcs (threads0 (world R)) i = start_pc (workers ! i)) \<and>
    (\<forall>S. thread_reach pf api server (world R) S \<longrightarrow> (\<forall>i e. pcs S i \<noteq> Thrown e) \<and>
       sessions_inv (sess (rt S)) \<and> (\<exists>S'. event_step pf api server fds (mpc S) S = Some S'))"
proof -
  obtain w' p where R: "workers = spawn_workers THREAD_COUNT" "R = router0 w'"
    "start_tcp_server pf api p w = (server, w')" "server \<noteq> SOCKET_ERROR"
    by (rule router_main_cases [OF assms(3)]) auto
  have os: "router_os api opened" using assms(1) by (simp add: start_os_def)
  have op: "SOCKET_ERROR \<notin> opened w'" "server \<in> opened w'"
    using start_os.start_tcp_server_opened [OF assms(1) R(3) assms(2)] R(4) by auto
  have "(\<forall>i e. pcs S i \<noteq> Thrown e) \<and> sessions_inv (sess (rt S)) \<and>
      (\<exists>S'. event_step pf api server fds (mpc S) S = Some S')" if "thread_reach pf api server w' S" for S
  proof -
    note inv = router_os.inv_reach [OF os that op(1)]
    have "pcs S i \<noteq> Thrown e" for i e using router_os.known(1) [OF os inv, of i] by auto
    with router_os.known(2) [OF os inv] router_os.listener_runs [OF os inv] show ?thesis by blast
  qed
  with R(1,2) op(2) spawn_workers_pcs [of _ w'] show ?thesis
    by (simp add: length_spawn_workers threads0_def router0_def)
qed

theorem router_program_runs_witness:
  "\<exists>server workers R. router_main Win32 sample_api [''router'', ''9000''] echo_net =
     Inr (Event_loop server workers R) \<and> length workers = 4 \<and> rt (threads0 (world R)) = R"
proof -
  have p: "stoi ''9000'' = Inr 9000" by code_simp
  obtain server workers R where m: "router_main Win32 sample_api [''router'', ''9000''] echo_net =
      Inr (Event_loop server workers R)"
    using p by (simp add: router_main_def Router_start_def start_tcp_server_def net_server_def net_socket_def
        net_fresh_def echo_net_def sample_net_def router0_def SOCKET_ERROR_def Let_def)
  with router_program_runs [OF net_start.start_os_axioms [of Win32 64] echo_net_fds m] show ?thesis
    by (auto simp: THREAD_COUNT_def)
qed

end
