(* ===== verification/Router_Records.thy ===== *)
theory Router_Records
  imports Log_Records Router_Logs Router_Reads
begin

text \<open>
  What the router's log says about the messages that pass through it: the messages that the read
  handler takes are in the file log, each with its text, and so are the messages that the write
  handler has sent. \<open>recorded\<close> relates the records of a run to the tasks that it queues.
\<close>

section \<open>The messages in the file log\<close>

definition file_part :: "log_record list \<Rightarrow> log_record list" where
  "file_part = filter (\<lambda>(n, _). n = ''file'')"

text \<open>The records of a message that was read and of one that was sent.\<close>

definition received_record :: "string \<Rightarrow> log_record" where
  "received_record m = (''file'', Info, ''Received MSG  : {}'', [Fmt_str (c_str m)])"

definition forwarded_record :: "string \<Rightarrow> log_record" where
  "forwarded_record m = (''file'', Info, ''Forwarded MSG : {}'', [Fmt_str m])"

lemma file_part_simps [simp]:
  "file_part [] = []" "file_part ((''console'', x) # recs) = file_part recs"
  "file_part ((''file'', x) # recs) = (''file'', x) # file_part recs"
  "file_part (recs1 @ recs2) = file_part recs1 @ file_part recs2"
  by (simp_all add: file_part_def)

text \<open>The records of one run of the write handler. No third case: \<^verbatim>\<open>send_to_client\<close> returns the size of
  the message or \<^verbatim>\<open>SOCKET_ERROR\<close>, so the branch for another number of bytes is never taken.\<close>

definition write_records ::
    "('w, 'x) sock_api_scheme \<Rightarrow> (errcode \<Rightarrow> int) \<Rightarrow> sock \<times> string \<Rightarrow> 'w router \<Rightarrow> log_record list" where
  "write_records api errnum task R =
     (case find_session_by_socket (fst task) (sess R) of
        None \<Rightarrow> [(''console'', Err, ''Error on MSG sending: dst session is not exist.'', [])]
      | Some r \<Rightarrow>
          (case api_send api (fst task) (snd task) (world R) of (k, w) \<Rightarrow>
             if k = int (length (snd task)) then
               [(''console'', Trace, ''MSG Forwarded to : {}'', [Fmt_int (session_id (sess R) r)]),
                forwarded_record (snd task)]
             else
               [(''console'', Err, ''Error on send. err code : {}'', [Fmt_int (errnum (api_errno api w))]),
                (''console'', Err, ''Error on socket send, session will removed.'', [])]))"

context spdlog_records
begin

lemma send_to_client_writes:
  "writes (send_to_client_logging api spd errnum s m w) (send_to_client api s m w)
    (case api_send api s m w of (k, w1) \<Rightarrow> if k = int (length m) then []
       else [(''console'', Err, ''Error on send. err code : {}'', [Fmt_int (errnum (api_errno api w1))])])"
  by (auto simp: send_to_client_logging_def send_to_client_def Let_def intro!: writes_intros split: prod.split)

lemma do_writes_writes:
  "writes (do_writes_logging api spd errnum task R) (do_writes api task R) (write_records api errnum task R)"
proof (cases "find_session_by_socket (fst task) (sess R)")
  case None
  then show ?thesis
    by (simp add: do_writes_logging_def do_writes_def write_records_def writes_LOG writes_done)
next
  case (Some r)
  obtain k w where k: "api_send api (fst task) (snd task) (world R) = (k, w)" by fastforce
  note send = send_to_client_writes [of api errnum "fst task" "snd task" "world R"]
  have err: "SOCKET_ERROR \<noteq> int (length (snd task))" by (simp add: SOCKET_ERROR_def)
  show ?thesis
    unfolding do_writes_logging_def Let_def Some option.case
  proof (rule writes_then_eq [OF send])
    show "write_records api errnum task R = (case api_send api (fst task) (snd task) (world R) of (k, w1) \<Rightarrow>
        if k = int (length (snd task)) then []
        else [(''console'', Err, ''Error on send. err code : {}'', [Fmt_int (errnum (api_errno api w1))])]) @
      (if k = int (length (snd task))
       then [(''console'', Trace, ''MSG Forwarded to : {}'', [Fmt_int (session_id (sess R) r)]), forwarded_record (snd task)]
       else [(''console'', Err, ''Error on socket send, session will removed.'', [])])"
      using k Some by (simp add: write_records_def)
  qed (use k Some err in \<open>auto simp: send_to_client_def do_writes_def forwarded_record_def Let_def intro!: writes_intros\<close>)
qed

lemma add_node_writes:
  obtains recs where "writes (add_node_logging spd s i st) (add_node s i st) recs" and "file_part recs = []"
proof (cases "sessions_by_socket st s")
  case None
  then show ?thesis
    by (intro that [of "[_]"]) (auto simp: add_node_logging_def add_node_def intro!: writes_intros)
next
  case (Some r)
  then show ?thesis
    by (intro that [of "if i \<ge> MAX_CLIENTS_COUNT then [_] else if sessions_by_id st i \<noteq> None then [_] else []"])
      (auto simp: add_node_logging_def add_node_def Let_def intro!: writes_intros)
qed

end

section \<open>The read handler\<close>

text \<open>
  A reader's buffer has a NUL behind the place of a message: it is allocated with zeros and nothing
  else is ever written there. So the text that is logged before the handler writes its own NUL is
  that of the message alone.
\<close>

definition terminated :: "buffer \<Rightarrow> bool" where
  "terminated buf \<longleftrightarrow> 32 < length buf \<and> buf ! 32 = NUL"

text \<open>What one or more turns keep, and how the file records relate to the tasks that they queue: the
  last record may be that of a message without a destination, which ends the loop.\<close>

definition turn_keeps :: "sock \<Rightarrow> ref \<Rightarrow> buffer \<Rightarrow> 'w router \<Rightarrow> bool" where
  "turn_keeps s r buf R \<longleftrightarrow>
     sessions_inv (sess R) \<and> sessions_by_socket (sess R) s = Some r \<and> terminated buf"

definition recorded :: "'w router \<Rightarrow> int \<Rightarrow> 'w router \<Rightarrow> log_record list \<Rightarrow> bool" where
  "recorded R k R1 recs \<longleftrightarrow> (\<exists>tasks lost.
     m_queue (write_queue R1) = m_queue (write_queue R) @ tasks \<and>
     file_part recs = map received_record (map snd tasks @ lost) \<and> length lost \<le> 1 \<and> (0 < k \<longrightarrow> lost = []))"

lemma recorded_trans:
  assumes "recorded R k R1 recs1" and "0 < k" and "recorded R1 k' R2 recs2"
  shows "recorded R k' R2 (recs1 @ recs2)"
proof -
  obtain tasks1 where 1: "m_queue (write_queue R1) = m_queue (write_queue R) @ tasks1"
    "file_part recs1 = map received_record (map snd tasks1)" using assms(1,2) by (auto simp: recorded_def)
  obtain tasks2 lost where "m_queue (write_queue R2) = m_queue (write_queue R1) @ tasks2"
    "file_part recs2 = map received_record (map snd tasks2 @ lost)" "length lost \<le> 1" "0 < k' \<longrightarrow> lost = []"
    using assms(3) by (auto simp: recorded_def)
  with 1 show ?thesis unfolding recorded_def by (intro exI [of _ "tasks1 @ tasks2"] exI [of _ lost]) simp
qed

lemma recordedI:
  assumes "m_queue (write_queue R1) = m_queue (write_queue R)" and "file_part recs = []"
  shows "recorded R k R1 recs"
  using assms unfolding recorded_def by (intro exI [of _ "[]"]) simp

lemma c_str_message:
  assumes "terminated buf" shows "c_str buf = c_str (take 32 buf)"
proof -
  have "buf = take 32 buf @ NUL # drop 33 buf"
    using assms Cons_nth_drop_Suc [of 32 buf] by (simp add: terminated_def)
  then show ?thesis by (metis c_str_terminated)
qed

context recv_api
begin

text \<open>A read keeps the NUL behind the message.\<close>

lemma read_async_terminated:
  assumes "read_async pf api s buf n w = Some (k, buf1, w1)" and "terminated buf" and "0 < n" and "n \<le> 32"
  shows "terminated buf1" and "length buf1 = length buf"
proof -
  have n: "n \<le> length buf" using assms(2,4) by (simp add: terminated_def)
  from read_async_ok [OF assms(3) n, of pf s w] assms(1)
  have b: "length buf1 = length buf" "drop n buf1 = drop n buf" by auto
  then show "length buf1 = length buf" by simp
  have "buf1 ! 32 = drop n buf1 ! (32 - n)" "buf ! 32 = drop n buf ! (32 - n)"
    using assms(2,4) b(1) by (simp_all add: terminated_def)
  then show "terminated buf1" using assms(2) b by (simp add: terminated_def)
qed

end

text \<open>The two branches of a turn.\<close>

lemma terminated_update: "terminated buf \<Longrightarrow> n \<le> 32 \<Longrightarrow> terminated (buf[n := NUL])"
  by (simp add: terminated_def nth_list_update)

context spdlog_records
begin

lemma handshake_records:
  assumes "recv_api api" and keeps: "turn_keeps s r buf R" and id: "session_id (sess R) r = NONE"
    and h: "handle_handshake pf api s buf R = Some (Inr (k, buf1, R1))"
  shows "\<exists>recs. writes (handle_handshake_logging pf api spd s buf R) (Inr (k, buf1, R1)) recs \<and>
    recorded R k R1 recs \<and> turn_keeps s r buf1 R1"
proof -
  have inv: "sessions_inv (sess R)" "sessions_by_socket (sess R) s = Some r" "terminated buf"
    using keeps by (simp_all add: turn_keeps_def)
  obtain n b w where rd: "read_async pf api s buf 3 (world R) = Some (n, b, w)"
    using h by (auto simp: handle_handshake_def ID_MESSAGE_SIZE_def split: option.splits)
  have b: "terminated b" using recv_api.read_async_terminated(1) [OF assms(1) rd inv(3)] by simp
  note run = writes_then_eq [OF writes_run [OF rd], simplified]
  show ?thesis
  proof (cases "n = 3")
    case True
    with h rd obtain i where i: "extract_src_id (b[3 := NUL]) 3 = Inr i"
      and res: "k = 3" "buf1 = b[3 := NUL]" "R1 = R\<lparr>world := w, sess := add_node s i (sess R)\<rparr>"
      by (auto simp: handle_handshake_def ID_MESSAGE_SIZE_def Let_def split: sum.splits)
    obtain recs where recs: "writes (add_node_logging spd s i (sess R)) (add_node s i (sess R)) recs" "file_part recs = []"
      by (rule add_node_writes)
    let ?recs = "recs @ [(''console'', Info, ''Initiate a node with ID : {}'', [Fmt_int i])]"
    have "writes (handle_handshake_logging pf api spd s buf R) (Inr (k, buf1, R1)) ?recs"
      unfolding handle_handshake_logging_def ID_MESSAGE_SIZE_def
      by (rule run) (auto simp: True i res Let_def intro!: writes_then_eq [OF recs(1) refl] writes_intros)
    moreover have "recorded R k R1 ?recs" by (rule recordedI) (simp_all add: res recs(2))
    moreover have "sessions_inv (add_node s i (sess R))" using inv id by (intro add_node_inv) auto
    then have "turn_keeps s r buf1 R1"
      using inv b by (simp add: turn_keeps_def res terminated_update) (simp add: add_node_def)
    ultimately show ?thesis by blast
  next
    case False
    with h rd have res: "k = n" "buf1 = b" "R1 = R\<lparr>world := w\<rparr>"
      by (auto simp: handle_handshake_def ID_MESSAGE_SIZE_def Let_def)
    let ?recs = "if n = SOCKET_ERROR then [(''console'', Err,
        ''read_async() return error. connection crashed or terminated by client'', [])]
      else if n \<noteq> 0 then [(''console'', Err,
        ''Received MSG length is insufficient for node handshaking, {} bytes will drop.'', [Fmt_int n])] else []"
    have "writes (handle_handshake_logging pf api spd s buf R) (Inr (k, buf1, R1)) ?recs"
      unfolding handle_handshake_logging_def ID_MESSAGE_SIZE_def
      by (rule run) (auto simp: False res Let_def intro!: writes_intros)
    moreover have "recorded R k R1 ?recs" by (rule recordedI) (simp_all add: res)
    moreover have "turn_keeps s r buf1 R1" using inv b by (simp add: turn_keeps_def res)
    ultimately show ?thesis by blast
  qed
qed

text \<open>A read worker begins with such a buffer.\<close>

lemma reader_begins:
  "writes (worker_thread_read_begin spd i) (replicate RECV_BUFF_SIZE NUL)
     [(''console'', Trace, ''Read Worker Thread {} started.'', [Fmt_int i])] \<and>
   terminated (replicate RECV_BUFF_SIZE NUL)"
  by (simp add: worker_thread_read_begin_def writes_intros terminated_def RECV_BUFF_SIZE_def)

text \<open>A node whose identifier is refused is nevertheless reported as initiated: the statement that says
  so does not depend on what \<^verbatim>\<open>add_node\<close> did.\<close>

lemma refused_node_is_reported:
  assumes s: "sessions_by_socket (sess R) s = Some r"
    and rd: "read_async pf api s buf 3 (world R) = Some (3, b, w)"
    and i: "extract_src_id (b[3 := NUL]) 3 = Inr i" "i \<ge> MAX_CLIENTS_COUNT"
  shows "writes (handle_handshake_logging pf api spd s buf R) (Inr (3, b[3 := NUL], R\<lparr>world := w\<rparr>))
      [(''console'', Err, ''node is invalid. id = {}'', [Fmt_int i]),
       (''console'', Info, ''Initiate a node with ID : {}'', [Fmt_int i])]"
proof -
  have "writes (add_node_logging spd s i (sess R)) (sess R)
      [(''console'', Err, ''node is invalid. id = {}'', [Fmt_int i])]"
    using s i(2) by (auto simp: add_node_logging_def intro!: writes_intros)
  note add = writes_then_eq [OF this, of _ "[(''console'', Info, ''Initiate a node with ID : {}'', [Fmt_int i])]"]
  show ?thesis
    unfolding handle_handshake_logging_def ID_MESSAGE_SIZE_def
    by (rule writes_then_eq [OF writes_run [OF rd], simplified])
      (auto simp: i(1) Let_def intro!: add writes_intros)
qed

text \<open>A message that was read: it is recorded whether its destination is known or not.\<close>

lemma full_message_records:
  assumes keeps: "turn_keeps s r buf R" and rd: "read_async pf api s buf 32 (world R) = Some (32, b, w)"
    and b: "terminated b" and h: "process_message pf api s buf R = Some (Inr (k, buf1, R1))"
  shows "\<exists>recs. writes (process_message_logging pf api spd s buf R) (Inr (k, buf1, R1)) recs \<and>
    recorded R k R1 recs \<and> turn_keeps s r buf1 R1"
proof -
  have inv: "sessions_inv (sess R)" "sessions_by_socket (sess R) s = Some r"
    using keeps by (simp_all add: turn_keeps_def)
  note run = writes_then_eq [OF writes_run [OF rd], simplified]
  let ?b = "b[32 := NUL]" and ?m = "take 32 b"
  let ?recv = "[(''console'', Debug, ''Received MSG : {}'', [Fmt_str (c_str b)]), received_record ?m]"
  have rec: "received_record ?m = (''file'', Info, ''Received MSG  : {}'', [Fmt_str (c_str b)])"
    by (simp add: received_record_def c_str_message [OF b])
  obtain i where i: "extract_dst_id ?b 32 = Inr i"
    using h rd by (auto simp: process_message_def DATA_MESSAGE_SIZE_def Let_def split: sum.splits)
  show ?thesis
  proof (cases "find_session_by_id i (sess R)")
    case None
    with h rd i have res: "k = 0" "buf1 = ?b" "R1 = R\<lparr>world := w\<rparr>"
      by (auto simp: process_message_def DATA_MESSAGE_SIZE_def Let_def)
    let ?recs = "?recv @ [(''console'', Err, ''Destination not found: {}'', [Fmt_int i])]"
    have "writes (process_message_logging pf api spd s buf R) (Inr (k, buf1, R1)) ?recs"
      unfolding process_message_logging_def DATA_MESSAGE_SIZE_def
      by (rule run) (auto simp: i None res Let_def rec intro!: writes_intros)
    moreover have "recorded R k R1 ?recs"
      unfolding recorded_def by (intro exI [of _ "[]"] exI [of _ "[?m]"]) (simp add: res rec)
    ultimately show ?thesis using inv b by (auto simp: turn_keeps_def res terminated_update)
  next
    case (Some d)
    with h rd i have res: "k = 32" "buf1 = ?b" "R1 = forward d ?m (R\<lparr>world := w\<rparr>)"
      by (auto simp: process_message_def DATA_MESSAGE_SIZE_def Let_def)
    have "session_socket (sess R) d \<noteq> None" using find_by_id_routes [OF inv(1), of i] Some by auto
    then obtain y where y: "session_socket (sess (R\<lparr>world := w\<rparr>)) d = Some y" by auto
    note f = forward_queue [OF y, of ?m]
    have "writes (process_message_logging pf api spd s buf R) (Inr (k, buf1, R1)) ?recv"
      unfolding process_message_logging_def DATA_MESSAGE_SIZE_def
      by (rule run) (auto simp: i Some res Let_def rec intro!: writes_intros)
    moreover have "recorded R k R1 ?recv"
      unfolding recorded_def by (intro exI [of _ "[(y, ?m)]"] exI [of _ "[]"]) (simp add: res f rec)
    ultimately show ?thesis using inv b f by (auto simp: turn_keeps_def res terminated_update)
  qed
qed

lemma message_records:
  assumes "recv_api api" and keeps: "turn_keeps s r buf R"
    and h: "process_message pf api s buf R = Some (Inr (k, buf1, R1))"
  shows "\<exists>recs. writes (process_message_logging pf api spd s buf R) (Inr (k, buf1, R1)) recs \<and>
    recorded R k R1 recs \<and> turn_keeps s r buf1 R1"
proof -
  have inv: "sessions_inv (sess R)" "sessions_by_socket (sess R) s = Some r" "terminated buf"
    using keeps by (simp_all add: turn_keeps_def)
  obtain n b w where rd: "read_async pf api s buf 32 (world R) = Some (n, b, w)"
    using h by (auto simp: process_message_def DATA_MESSAGE_SIZE_def split: option.splits)
  have b: "terminated b" using recv_api.read_async_terminated(1) [OF assms(1) rd inv(3)] by simp
  show ?thesis
  proof (cases "n = 32")
    case True
    with full_message_records [OF keeps _ b h] rd show ?thesis by simp
  next
    case False
    with h rd have res: "k = n" "buf1 = b" "R1 = R\<lparr>world := w\<rparr>"
      by (auto simp: process_message_def DATA_MESSAGE_SIZE_def Let_def)
    let ?recs = "if n = SOCKET_ERROR then [(''console'', Err,
        ''read_async() return error. connection crashed or terminated by client'', [])]
      else if n \<noteq> 0 then [(''console'', Err,
        ''Received MSG length is insufficient for MSG processing, {} bytes will drop.'', [Fmt_int n])] else []"
    have "writes (process_message_logging pf api spd s buf R) (Inr (k, buf1, R1)) ?recs"
      unfolding process_message_logging_def DATA_MESSAGE_SIZE_def
      by (rule writes_then_eq [OF writes_run [OF rd], simplified])
        (auto simp: False res Let_def intro!: writes_intros)
    moreover have "recorded R k R1 ?recs" by (rule recordedI) (simp_all add: res)
    ultimately show ?thesis using inv b by (auto simp: turn_keeps_def res)
  qed
qed

text \<open>The loop and the handler.\<close>

lemma reads_loop_step_records:
  assumes "writes (if session_id (sess R) r = NONE then handle_handshake_logging pf api spd s buf R
      else process_message_logging pf api spd s buf R) (Inr (k, buf1, R1)) recs1"
    and "if 0 < k then writes (reads_loop_logging pf api spd s r buf1 R1) x recs2
      else x = Inr (k, buf1, R1) \<and> recs2 = []"
  shows "writes (reads_loop_logging pf api spd s r buf R) x (recs1 @ recs2)"
proof -
  have eq: "reads_loop_logging pf api spd s r buf R =
      log_then (if session_id (sess R) r = NONE then handle_handshake_logging pf api spd s buf R
        else process_message_logging pf api spd s buf R)
      (\<lambda>res. case res of Inl e \<Rightarrow> log_done (Inl e)
        | Inr (k, buf, R1) \<Rightarrow> if 0 < k then reads_loop_logging pf api spd s r buf R1 else log_done (Inr (k, buf, R1)))"
    by (rule ext, subst reads_loop_logging.simps)
      (auto simp: fun_eq_iff intro!: arg_cong [where f = "\<lambda>k. log_then _ k _"] split: sum.split)
  show ?thesis
    unfolding eq by (rule writes_then [OF assms(1)]) (use assms(2) in \<open>auto split: if_splits\<close>)
qed

lemma reads_loop_records:
  assumes "recv_api api" and "reads_loop pf api s r buf R = Some (Inr (k, buf', R'))" and "turn_keeps s r buf R"
  shows "\<exists>recs. writes (reads_loop_logging pf api spd s r buf R) (Inr (k, buf', R')) recs \<and>
    recorded R k R' recs \<and> turn_keeps s r buf' R'"
proof (rule reads_loop.raw_induct [OF _ assms(2), where P = "\<lambda>pf api s r buf R x. \<forall>k buf' R'.
      recv_api api \<longrightarrow> x = Inr (k, buf', R') \<longrightarrow> turn_keeps s r buf R \<longrightarrow>
      (\<exists>recs. writes (reads_loop_logging pf api spd s r buf R) (Inr (k, buf', R')) recs \<and>
        recorded R k R' recs \<and> turn_keeps s r buf' R')", rule_format, OF _ assms(1) refl assms(3)])
  fix F pf api s r buf R x k buf' R'
  assume IH: "\<And>pf api s r buf R x k buf' R'. F pf api s r buf R = Some x \<Longrightarrow>
      recv_api api \<Longrightarrow> x = Inr (k, buf', R') \<Longrightarrow> turn_keeps s r buf R \<Longrightarrow>
      \<exists>recs. writes (reads_loop_logging pf api spd s r buf R) (Inr (k, buf', R')) recs \<and>
        recorded R k R' recs \<and> turn_keeps s r buf' R'"
    and run: "Option.bind (if session_id (sess R) r = NONE then handle_handshake pf api s buf R
          else process_message pf api s buf R)
        (\<lambda>res. case res of Inl e \<Rightarrow> Some (Inl e)
          | Inr (k, buf, R1) \<Rightarrow> if 0 < k then F pf api s r buf R1 else Some (Inr (k, buf, R1))) = Some x"
    and api: "recv_api api" and x: "x = Inr (k, buf', R')" and keeps: "turn_keeps s r buf R"
  obtain k1 buf1 R1 where turn: "(if session_id (sess R) r = NONE then handle_handshake pf api s buf R
      else process_message pf api s buf R) = Some (Inr (k1, buf1, R1))"
    and rest: "(if 0 < k1 then F pf api s r buf1 R1 else Some (Inr (k1, buf1, R1))) = Some (Inr (k, buf', R'))"
    by (rule bind_turn [OF run [unfolded x]])
  have "\<exists>recs. writes (if session_id (sess R) r = NONE
        then handle_handshake_logging pf api spd s buf R else process_message_logging pf api spd s buf R)
      (Inr (k1, buf1, R1)) recs \<and> recorded R k1 R1 recs \<and> turn_keeps s r buf1 R1"
    using turn handshake_records [OF api keeps, of pf k1 buf1 R1] message_records [OF api keeps, of pf k1 buf1 R1]
    by (cases "session_id (sess R) r = NONE") auto
  then obtain recs1 where 1: "writes (if session_id (sess R) r = NONE
        then handle_handshake_logging pf api spd s buf R else process_message_logging pf api spd s buf R)
      (Inr (k1, buf1, R1)) recs1" "recorded R k1 R1 recs1" "turn_keeps s r buf1 R1"
    by blast
  show "\<exists>recs. writes (reads_loop_logging pf api spd s r buf R) (Inr (k, buf', R')) recs \<and>
      recorded R k R' recs \<and> turn_keeps s r buf' R'"
  proof (cases "0 < k1")
    case True
    with rest have "F pf api s r buf1 R1 = Some (Inr (k, buf', R'))" by simp
    from IH [OF this api refl 1(3)] obtain recs2 where
      2: "writes (reads_loop_logging pf api spd s r buf1 R1) (Inr (k, buf', R')) recs2"
        "recorded R1 k R' recs2" "turn_keeps s r buf' R'" by blast
    with reads_loop_step_records [OF 1(1)] recorded_trans [OF 1(2) True 2(2)] True show ?thesis by auto
  next
    case False
    with rest 1 reads_loop_step_records [OF 1(1), of "Inr (k, buf', R')" "[]"] show ?thesis by auto
  qed
qed

lemma do_reads_records:
  assumes "recv_api api" and "do_reads pf api s buf R = Some (Inr (buf', R'))"
    and "sessions_inv (sess R)" and "terminated buf"
  shows "\<exists>k recs. writes (do_reads_logging pf api spd s buf R) (Inr (buf', R')) recs \<and>
    recorded R k R' recs \<and> terminated buf'"
proof (cases "find_session_by_socket s (sess R)")
  case None
  with assms(2) have res: "buf' = buf" "R' = R" by (auto simp: do_reads_def)
  have "writes (do_reads_logging pf api spd s buf R) (Inr (buf', R'))
      [(''console'', Err, ''The socket doesnt exist and alive yet.1'', [])]"
    by (simp add: do_reads_logging_def None res writes_intros)
  then show ?thesis using assms(4) recordedI [of R' R] by (fastforce simp: res)
next
  case (Some r)
  then have keeps: "turn_keeps s r buf R"
    using assms(3,4) by (simp add: turn_keeps_def find_session_by_socket_def)
  from assms(2) Some obtain k R1 where loop: "reads_loop pf api s r buf R = Some (Inr (k, buf', R1))"
    and R': "R' = (if k = SOCKET_ERROR then R1\<lparr>sess := remove_locked s (sess R1)\<rparr> else R1)"
    by (auto simp: do_reads_def split: option.splits sum.splits if_splits)
  obtain recs where recs: "writes (reads_loop_logging pf api spd s r buf R) (Inr (k, buf', R1)) recs"
    "recorded R k R1 recs" "turn_keeps s r buf' R1" using reads_loop_records [OF assms(1) loop keeps] by blast
  let ?final = "if k = SOCKET_ERROR then [(''console'', Err, ''Error on socket recv, session will removed.'', [])] else []"
  have "writes (do_reads_logging pf api spd s buf R) (Inr (buf', R')) (recs @ ?final)"
    unfolding do_reads_logging_def Some option.case
    by (rule writes_then [OF recs(1)]) (auto simp: R' intro!: writes_intros)
  moreover have "recorded R k R' (recs @ ?final)" using recs(2) by (auto simp: recorded_def R')
  ultimately show ?thesis using recs(3) by (auto simp: turn_keeps_def)
qed

end

end
