(* ===== verification/Log_Properties.thy ===== *)
theory Log_Properties
  imports Router_Records Router_Properties
begin

text \<open>
  The properties of the router's log statements: that they change nothing else, and what the log
  tells about the messages that were routed.
\<close>

section \<open>The handlers with their log statements\<close>

text \<open>Once both loggers are registered, the log statements of the router's handlers and of its event
  loop change nothing else. The read handler with them returns what it returns without them, and
  does not return if it does not without them; the write handler and a pass of the event loop
  return what they return without them. No statement meets a null pointer, and both loggers are
  registered afterwards.\<close>

lemma handlers_log_transparently:
  assumes "spdlog_laws spd" and "Logger_Console spd l \<noteq> None" and "Logger_File spd l \<noteq> None"
  shows "map_option (map_sum id fst) (do_reads_logging pf api spd s buf R l) =
      map_option Inr (do_reads pf api s buf R) \<and>
    (\<exists>l'. do_writes_logging api spd errnum task R l = Some (Inr (do_writes api task R, l')) \<and>
       Logger_Console spd l' \<noteq> None \<and> Logger_File spd l' \<noteq> None) \<and>
    (\<exists>l'. event_pass_logging pf sapi spd errnum server fds R' l = Some (Inr (event_pass pf sapi server fds R', l')) \<and>
       Logger_Console spd l' \<noteq> None \<and> Logger_File spd l' \<noteq> None) \<and>
    (\<forall>x l'. do_reads_logging pf api spd s buf R l = Some (Inr (x, l')) \<longrightarrow>
       Logger_Console spd l' \<noteq> None \<and> Logger_File spd l' \<noteq> None)"
proof -
  note ready = spdlog_laws.ready_def [OF assms(1)]
  have r: "spdlog_laws.ready spd l" using assms(2,3) by (simp add: ready)
  note reads = spdlog_laws.do_reads_transparent [OF assms(1), of pf api s buf R]
  have "Logger_Console spd l' \<noteq> None \<and> Logger_File spd l' \<noteq> None"
    if "do_reads_logging pf api spd s buf R l = Some (Inr (x, l'))" for x l'
    by (rule spdlog_laws.transparent_cases [OF assms(1) reads r]) (use that in \<open>auto simp: ready\<close>)
  then show ?thesis
    using spdlog_laws.transparent_erase [OF assms(1) reads r]
      spdlog_laws.transparent_Some [OF assms(1) spdlog_laws.do_writes_transparent [OF assms(1)] r, of api errnum task R]
      spdlog_laws.transparent_Some [OF assms(1) spdlog_laws.event_pass_transparent [OF assms(1)] r,
        of pf sapi errnum server fds R']
    unfolding ready by blast
qed

text \<open>A log state after a successful initialisation.\<close>

definition sample_log :: spd_state where
  "sample_log = Logger_Initialize sim_spd ''logs/router.log'' 5242880 3 (spd0 True)"

lemma sample_log_loggers:
  "\<exists>c. Logger_Console sim_spd sample_log = Some c \<and> logger_level c = Trace"
  "\<exists>f. Logger_File sim_spd sample_log = Some f \<and> logger_level f = Trace"
  "logged sample_log = []"
  by (simp_all add: sample_log_def Logger_Initialize_def create_sinks_def register_loggers_def
      Logger_Console_def Logger_File_def sim_spd_def sim_get_def spd0_def Let_def)

section \<open>What the log tells\<close>

text \<open>C25: The file log tells which messages were routed. A run of the read handler, with any timing of
  the bytes, writes one record for each message that it puts into the write queue, in the same
  order and with the message's text, and possibly one more at the end, for a message without a
  destination; the text in the record is that of the message alone although it is logged before
  the handler writes the terminating NUL. The write handler records a message as forwarded exactly
  when its connection is known and the whole message was sent, and otherwise reports what went
  wrong on the console.\<close>

theorem traffic_is_recorded:
  assumes "spdlog_records spd records" and "Logger_Console spd l = Some c" and "logger_level c = Trace"
    and "Logger_File spd l = Some f" and "logger_level f = Trace"
    and "recv_api api" and "sessions_inv (sess R)" and "terminated buf"
    and "do_reads pf api s buf R = Some (Inr (buf', R'))"
  shows "(\<exists>l' tasks lost. do_reads_logging pf api spd s buf R l = Some (Inr (Inr (buf', R'), l')) \<and>
      m_queue (write_queue R') = m_queue (write_queue R) @ tasks \<and>
      file_part (records l') = file_part (records l) @ map received_record (map snd tasks @ lost) \<and>
      length lost \<le> 1 \<and> terminated buf') \<and>
    (\<exists>l'. do_writes_logging api spd errnum task R l = Some (Inr (do_writes api task R, l')) \<and>
      records l' = records l @ write_records api errnum task R)"
proof -
  have rec: "spdlog_records.recording spd l"
    using assms(2-5) by (auto simp: spdlog_records.recording_def [OF assms(1)])
  note writes = spdlog_records.writes_def [OF assms(1)]
  obtain k recs where recs: "spdlog_records.writes spd records (do_reads_logging pf api spd s buf R) (Inr (buf', R')) recs"
    "recorded R k R' recs" "terminated buf'"
    using spdlog_records.do_reads_records [OF assms(1,6,9,7,8)] by blast
  then obtain l' where l': "do_reads_logging pf api spd s buf R l = Some (Inr (Inr (buf', R'), l'))"
    "records l' = records l @ recs" using rec unfolding writes by blast
  from recs(2) obtain tasks lost where "m_queue (write_queue R') = m_queue (write_queue R) @ tasks"
    "file_part recs = map received_record (map snd tasks @ lost)" "length lost \<le> 1" by (auto simp: recorded_def)
  with l' recs(3) have "\<exists>l' tasks lost. do_reads_logging pf api spd s buf R l = Some (Inr (Inr (buf', R'), l')) \<and>
      m_queue (write_queue R') = m_queue (write_queue R) @ tasks \<and>
      file_part (records l') = file_part (records l) @ map received_record (map snd tasks @ lost) \<and>
      length lost \<le> 1 \<and> terminated buf'" by auto
  moreover have "\<exists>l'. do_writes_logging api spd errnum task R l = Some (Inr (do_writes api task R, l')) \<and>
      records l' = records l @ write_records api errnum task R"
    using spdlog_records.do_writes_writes [OF assms(1), of api errnum task R] rec unfolding writes by blast
  ultimately show ?thesis by blast
qed

theorem traffic_is_recorded_witness:
  "\<exists>buf' R' l' lost. do_reads_logging Win32 sample_api sim_spd 5 sample_buf
       (sample_router 5 [''0052200123456'', ''1111111111111111003''] Open) sample_log = Some (Inr (Inr (buf', R'), l')) \<and>
     m_queue (write_queue R') = [(4, ''00522001234561111111111111111003'')] \<and>
     file_part (logged l') = received_record ''00522001234561111111111111111003'' # map received_record lost"
proof -
  let ?R = "sample_router 5 [''0052200123456'', ''1111111111111111003''] Open" and ?m = "first_msg 5 3"
  have enc: "encode_msg ?m = ''00522001234561111111111111111003''" by code_simp
  have rt: "routes (table_of (sess ?R)) 3 = Some 4" by (simp add: sample_router_def sample_defs)
  have c: "conns (table_of (sess ?R)) 5 = Some 5" by (simp add: sample_conns)
  have q: "m_queue (write_queue ?R) = []" by (simp add: sample_router_def squeue0_def)
  have "do_reads_spec (net_status (world ?R) 5) 5 (net_pending (world ?R) 5) (table_of (sess ?R)) =
      (table_of (sess ?R), [(4, encode_msg ?m)], [])"
    using reads_spec_msgs [of "table_of (sess ?R)" 5 "[?m]" "[]" Open] c rt
    by (simp add: do_reads_spec_def SOCKET_ERROR_def NONE_def sample_world msg_ok_first id_ok_def enc
        m_dst_first deliveries_def)
  from quiet_stream.do_reads_run [OF net_s.quiet_stream_axioms [of Win32 64] sample_inv c _ this, of sample_buf]
  obtain buf' R' where run: "do_reads Win32 sample_api 5 sample_buf ?R = Some (Inr (buf', R'))"
    and tasks: "m_queue (write_queue R') = [(4, ''00522001234561111111111111111003'')]"
    by (auto simp: q enc)
  obtain c f where cf: "Logger_Console sim_spd sample_log = Some c" "logger_level c = Trace"
    "Logger_File sim_spd sample_log = Some f" "logger_level f = Trace" using sample_log_loggers by auto
  have t: "terminated sample_buf" by (simp add: terminated_def)
  from traffic_is_recorded [OF sim_rec.spdlog_records_axioms cf net_s.recv_api_axioms [of Win32 64] sample_inv t run,
      THEN conjunct1]
  show ?thesis using tasks by (auto simp: q sample_log_loggers)
qed

end
