(* ===== verification/Conversation.thy ===== *)
theory Conversation
  imports Router_Reads Node_Message Script_Net
begin

text \<open>
  Two nodes and the router together. One exchange takes a message from the node that has sent it
  through the router, in with \<open>do_reads\<close> and out with \<open>do_writes\<close>, to the other node, which answers
  with \<open>processMessage\<close> what has been sent to its socket, whatever that is; a conversation is a
  sequence of exchanges in which the answer of one is the message of the next.
\<close>

section \<open>A network between the programs\<close>

text \<open>
  \<open>sent w s\<close> are the bytes that the router has sent on \<open>s\<close> and that the peer has not taken yet, and
  \<open>sndbuf\<close> is the size of the send buffer of a socket. \<^verbatim>\<open>send\<close> appends as many bytes as it says, and
  on an open connection a non-blocking \<^verbatim>\<open>send\<close> takes a message whole if it fits into the send buffer;
  otherwise it may take a part of it or fail. Two things happen outside of the router: bytes that a
  node sends \<open>arrive\<close>, and a node takes (\<open>collect\<close>) what was sent to it.
\<close>

locale link = quiet_stream api pending pf status
  for api :: "('w, 'x) sock_api_scheme" and pending and pf and status +
  fixes sent :: "'w \<Rightarrow> sock \<Rightarrow> string"
    and sndbuf :: nat
    and arrive :: "sock \<Rightarrow> string \<Rightarrow> 'w \<Rightarrow> 'w"
    and collect :: "sock \<Rightarrow> 'w \<Rightarrow> 'w"
  assumes recv_sent: "api_recv api s n w = (r, bs, w') \<Longrightarrow> sent w' = sent w"
    and send_sent: "api_send api s m w = (k, w') \<Longrightarrow> 0 \<le> k \<Longrightarrow>
      sent w' = (sent w)(s := sent w s @ take (nat k) m) \<and> pending w' = pending w \<and> status w' = status w"
    and send_fits: "status w s = Open \<Longrightarrow> length (sent w s) + length m \<le> sndbuf \<Longrightarrow>
      fst (api_send api s m w) = int (length m)"
    and arrive_pending: "pending (arrive s bs w) = (pending w)(s := pending w s @ bs)"
    and arrive_status: "status (arrive s bs w) = status w"
    and arrive_sent: "sent (arrive s bs w) = sent w"
    and collect_sent: "sent (collect s w) = (sent w)(s := [])"
    and collect_pending: "pending (collect s w) = pending w"
    and collect_status: "status (collect s w) = status w"
begin

lemma send_whole:
  assumes "status w s = Open" and "length (sent w s) + length m \<le> sndbuf"
  obtains w' where "api_send api s m w = (int (length m), w')" and "pending w' = pending w"
    and "status w' = status w" and "sent w' = (sent w)(s := sent w s @ m)"
proof -
  obtain k w' where k: "api_send api s m w = (k, w')" by fastforce
  with send_fits [OF assms] have "k = int (length m)" by simp
  with send_sent [OF k] k that show thesis by simp
qed

lemma recv_keeps_sent: "recv_keeps api sent"
  unfolding recv_keeps_def by (metis prod.collapse recv_sent)

end

definition net_arrive :: "sock \<Rightarrow> string \<Rightarrow> net \<Rightarrow> net" where
  "net_arrive s bs w = w\<lparr>inbound := (inbound w)(s := inbound w s @ [bs])\<rparr>"

definition net_collect :: "sock \<Rightarrow> net \<Rightarrow> net" where
  "net_collect s w = w\<lparr>outbound := (outbound w)(s := [])\<rparr>"

interpretation net_l: link "net_server pf cap" net_pending pf net_status net_sent sndbuf net_arrive net_collect
  by unfold_locales
    (auto simp: net_server_def net_arrive_def net_collect_def net_pending_def net_sent_def net_send_def
      net_recv_def fun_eq_iff Let_def split: if_splits list.splits conn_status.splits)

section \<open>Exchanges\<close>

text \<open>
  One exchange: the message arrives at the socket \<open>s\<close>, a reader handles the socket, a writer takes
  the first task of the queue and does it, and the node \<open>me\<close> on the socket \<open>t\<close> takes what has been
  sent to it and answers that. The result is what the node has got, its answer, and the new state of
  the router with the reader's buffer.
\<close>

definition exchange ::
    "platform \<Rightarrow> ('w, 'x) sock_api_scheme \<Rightarrow> ('w \<Rightarrow> sock \<Rightarrow> string) \<Rightarrow> (sock \<Rightarrow> string \<Rightarrow> 'w \<Rightarrow> 'w) \<Rightarrow>
     (sock \<Rightarrow> 'w \<Rightarrow> 'w) \<Rightarrow> int \<Rightarrow> sock \<Rightarrow> sock \<Rightarrow> string \<Rightarrow> buffer \<Rightarrow> 'w router \<Rightarrow>
     (string \<times> string \<times> buffer \<times> 'w router) option" where
  "exchange pf api sent arrive collect me t s m buf R =
     (case do_reads pf api s buf (R\<lparr>world := arrive s m (world R)\<rparr>) of
        Some (Inr (buf1, R1)) \<Rightarrow>
          (case try_pop (write_queue R1) of
             Some (task, q) \<Rightarrow>
               let R2 = do_writes api task (R1\<lparr>write_queue := q\<rparr>);
                   got = sent (world R2) t
               in (case processMessage me got (int (length got)) of
                     Inr answer \<Rightarrow> Some (got, answer, buf1, R2\<lparr>world := collect t (world R2)\<rparr>)
                   | Inl e \<Rightarrow> None)
           | None \<Rightarrow> None)
      | _ \<Rightarrow> None)"

text \<open>A conversation between \<open>a\<close> on the socket \<open>sa\<close>, who sends first, and \<open>b\<close> on \<open>sb\<close>: what was
  received on which socket, the last answer, and the final state.\<close>

fun conversation ::
    "platform \<Rightarrow> ('w, 'x) sock_api_scheme \<Rightarrow> ('w \<Rightarrow> sock \<Rightarrow> string) \<Rightarrow> (sock \<Rightarrow> string \<Rightarrow> 'w \<Rightarrow> 'w) \<Rightarrow>
     (sock \<Rightarrow> 'w \<Rightarrow> 'w) \<Rightarrow> nat \<Rightarrow> int \<Rightarrow> sock \<Rightarrow> int \<Rightarrow> sock \<Rightarrow> string \<Rightarrow> buffer \<Rightarrow> 'w router \<Rightarrow>
     ((sock \<times> string) list \<times> string \<times> buffer \<times> 'w router) option" where
  "conversation pf api sent arrive collect 0 a sa b sb m buf R = Some ([], m, buf, R)"
| "conversation pf api sent arrive collect (Suc n) a sa b sb m buf R =
     (case exchange pf api sent arrive collect b sb sa m buf R of
        None \<Rightarrow> None
      | Some (got, answer, buf1, R1) \<Rightarrow>
          (case conversation pf api sent arrive collect n b sb a sa answer buf1 R1 of
             None \<Rightarrow> None
           | Some (gots, final, st) \<Rightarrow> Some ((sb, got) # gots, final, st)))"

section \<open>Conversations go on\<close>

context link
begin

text \<open>Both ends are connected and registered, nothing is on its way in either direction, and no task is
  left.\<close>

definition talking :: "int \<Rightarrow> sock \<Rightarrow> int \<Rightarrow> sock \<Rightarrow> buffer \<Rightarrow> 'w router \<Rightarrow> bool" where
  "talking a sa b sb buf R \<longleftrightarrow> sessions_inv (sess R) \<and> 32 < length buf \<and>
     conns (table_of (sess R)) sa = Some a \<and> conns (table_of (sess R)) sb = Some b \<and>
     routes (table_of (sess R)) a = Some sa \<and> routes (table_of (sess R)) b = Some sb \<and>
     pending (world R) sa = [] \<and> pending (world R) sb = [] \<and>
     sent (world R) sa = [] \<and> sent (world R) sb = [] \<and>
     status (world R) sa = Open \<and> status (world R) sb = Open \<and> m_queue (write_queue R) = []"

lemma talking_swap: "talking a sa b sb buf R \<Longrightarrow> talking b sb a sa buf R"
  by (simp add: talking_def)

lemma do_writes_whole:
  assumes "sessions_by_socket (sess R) t = Some r" and "status (world R) t = Open"
    and "length (sent (world R) t) + length m \<le> sndbuf"
  obtains w' where "do_writes api (t, m) R = R\<lparr>world := w'\<rparr>" and "pending w' = pending (world R)"
    and "status w' = status (world R)" and "sent w' = (sent (world R))(t := sent (world R) t @ m)"
proof -
  from send_whole [OF assms(2,3)] obtain w' where "api_send api t m (world R) = (int (length m), w')"
    "pending w' = pending (world R)" "status w' = status (world R)"
    "sent w' = (sent (world R))(t := sent (world R) t @ m)" by blast
  with that [of w'] assms(1) show thesis
    by (simp add: do_writes_def find_session_by_socket_def send_to_client_def)
qed

text \<open>The reader's part of an exchange.\<close>

lemma message_queued:
  assumes t: "talking a sa b sb buf R" and m: "msg_ok m" "m_src m = a" "m_dst m = b"
  obtains buf1 R1 where "do_reads pf api sa buf (R\<lparr>world := arrive sa (encode_msg m) (world R)\<rparr>) = Some (Inr (buf1, R1))"
    and "sessions_inv (sess R1)" and "table_of (sess R1) = table_of (sess R)"
    and "m_queue (write_queue R1) = [(sb, encode_msg m)]" and "length buf1 = length buf"
    and "pending (world R1) = pending (world R)" and "status (world R1) = status (world R)"
    and "sent (world R1) = sent (world R)"
proof -
  let ?R = "R\<lparr>world := arrive sa (encode_msg m) (world R)\<rparr>" and ?t = "table_of (sess R)"
  have a: "conns ?t sa \<noteq> Some NONE" using t m by (auto simp: talking_def msg_ok_def id_ok_def NONE_def)
  have spec: "do_reads_spec (status (world ?R) sa) sa (pending (world ?R) sa) (table_of (sess ?R)) =
      (?t, [(sb, encode_msg m)], [])"
    using reads_spec_msgs [OF a, of "[m]" "[]" Open] t m
    by (simp add: talking_def do_reads_spec_def deliveries_def SOCKET_ERROR_def arrive_pending arrive_status)
  have inv: "sessions_inv (sess ?R)" "32 < length buf" and "conns ?t sa \<noteq> None"
    using t by (simp_all add: talking_def)
  then obtain ra where ra: "sessions_by_socket (sess ?R) sa = Some ra" using conns_None_iff [of "sess R" sa] by auto
  obtain buf1 R1 where d: "do_reads pf api sa buf ?R = Some (Inr (buf1, R1))"
    "sessions_inv (sess R1)" "table_of (sess R1) = ?t" "m_queue (write_queue R1) = [(sb, encode_msg m)]"
    "length buf1 = length buf" "pending (world R1) = (pending (world ?R))(sa := [])"
    "status (world R1) = status (world ?R)"
    by (rule do_reads_refines [OF inv(1) ra inv(2) spec]) (use t in \<open>simp add: talking_def\<close>)
  moreover have "pending (world R1) = pending (world R)"
    using d(6) t by (auto simp: talking_def arrive_pending fun_eq_iff)
  ultimately show thesis
    using that do_reads_keeps_world [OF recv_keeps_sent d(1)] by (simp add: arrive_status arrive_sent)
qed

lemma exchange_answers:
  assumes t: "talking a sa b sb buf R" and m: "msg_ok m" "m_src m = a" "m_dst m = b" and buf: "32 \<le> sndbuf"
  shows "\<exists>buf' R'. exchange pf api sent arrive collect b sb sa (encode_msg m) buf R =
      Some (encode_msg m, encode_msg (reply_msg m), buf', R') \<and> talking a sa b sb buf' R'"
proof -
  have l: "length (encode_msg m) = 32" by (rule length_encode_msg [OF m(1)])
  obtain buf1 R1 where d: "do_reads pf api sa buf (R\<lparr>world := arrive sa (encode_msg m) (world R)\<rparr>) = Some (Inr (buf1, R1))"
    "sessions_inv (sess R1)" "table_of (sess R1) = table_of (sess R)" "m_queue (write_queue R1) = [(sb, encode_msg m)]"
    "length buf1 = length buf" "pending (world R1) = pending (world R)" "status (world R1) = status (world R)"
    "sent (world R1) = sent (world R)" by (rule message_queued [OF t m])
  let ?R1 = "R1\<lparr>write_queue := (write_queue R1)\<lparr>m_queue := []\<rparr>\<rparr>"
  have pop: "try_pop (write_queue R1) = Some ((sb, encode_msg m), (write_queue R1)\<lparr>m_queue := []\<rparr>)"
    by (simp add: try_pop_def d(4))
  have "conns (table_of (sess R1)) sb \<noteq> None" using t d(3) by (simp add: talking_def)
  then obtain rb where rb: "sessions_by_socket (sess ?R1) sb = Some rb" using conns_None_iff [OF d(2), of sb] by auto
  have fits: "status (world ?R1) sb = Open" "length (sent (world ?R1) sb) + length (encode_msg m) \<le> sndbuf"
    using t d(7,8) l buf by (simp_all add: talking_def)
  obtain w' where w': "do_writes api (sb, encode_msg m) ?R1 = ?R1\<lparr>world := w'\<rparr>"
    "pending w' = pending (world ?R1)" "status w' = status (world ?R1)"
    "sent w' = (sent (world ?R1))(sb := sent (world ?R1) sb @ encode_msg m)" by (rule do_writes_whole [OF rb fits])
  have got: "sent w' sb = encode_msg m" using t d(8) w'(4) by (simp add: talking_def)
  have "processMessage b (encode_msg m) 32 = Inr (encode_msg (reply_msg m))"
    using processMessage_encode [OF m(1), of b "[]"] m(3) by simp
  then have "exchange pf api sent arrive collect b sb sa (encode_msg m) buf R =
      Some (encode_msg m, encode_msg (reply_msg m), buf1, ?R1\<lparr>world := collect sb w'\<rparr>)"
    using d(1) pop w'(1) got by (simp add: exchange_def l Let_def)
  moreover have "talking a sa b sb buf1 (?R1\<lparr>world := collect sb w'\<rparr>)"
    using t d w'(2-4) by (simp add: talking_def collect_sent collect_pending collect_status)
  ultimately show ?thesis by blast
qed

lemma conversation_runs:
  assumes "talking a sa b sb buf R" and "msg_ok m" and "m_src m = a" and "m_dst m = b" and "32 \<le> sndbuf"
  shows "\<exists>buf' R'. conversation pf api sent arrive collect n a sa b sb (encode_msg m) buf R =
      Some (map (\<lambda>k. (if even k then sb else sa, encode_msg ((reply_msg ^^ k) m))) [0..<n],
        encode_msg ((reply_msg ^^ n) m), buf', R') \<and> talking a sa b sb buf' R'"
  using assms
proof (induction n arbitrary: a sa b sb buf R m)
  case (Suc n)
  obtain buf1 R1 where e: "exchange pf api sent arrive collect b sb sa (encode_msg m) buf R =
      Some (encode_msg m, encode_msg (reply_msg m), buf1, R1)" "talking a sa b sb buf1 R1"
    using exchange_answers [OF Suc.prems] by blast
  have "msg_ok (reply_msg m)" "m_src (reply_msg m) = b" "m_dst (reply_msg m) = a"
    using Suc.prems(3,4) by (simp_all add: msg_ok_reply [OF Suc.prems(2)]) (simp_all add: reply_msg_def)
  from Suc.IH [OF talking_swap [OF e(2)] this Suc.prems(5)] obtain buf' R' where IH:
    "conversation pf api sent arrive collect n b sb a sa (encode_msg (reply_msg m)) buf1 R1 =
      Some (map (\<lambda>k. (if even k then sa else sb, encode_msg ((reply_msg ^^ k) (reply_msg m)))) [0..<n],
        encode_msg ((reply_msg ^^ n) (reply_msg m)), buf', R')" "talking b sb a sa buf' R'" by blast
  have "map (\<lambda>k. (if even k then sb else sa, encode_msg ((reply_msg ^^ k) m))) [0..<Suc n] =
      (sb, encode_msg m) #
      map (\<lambda>k. (if even k then sa else sb, encode_msg ((reply_msg ^^ k) (reply_msg m)))) [0..<n]"
    by (simp add: map_upt_Suc funpow_swap1 del: upt_Suc)
  with e(1) IH(1) talking_swap [OF IH(2)] show ?case by (simp add: funpow_swap1)
qed simp

end

section \<open>The messages of a conversation\<close>

text \<open>The \<open>k\<close>-th message of a conversation, in closed form.\<close>

definition kth_msg :: "int \<Rightarrow> int \<Rightarrow> nat \<Rightarrow> msg" where
  "kth_msg a b k = (first_msg (if even k then a else b) (if even k then b else a))
     \<lparr>m_mti := (2200 + 10 * int k) mod 10000\<rparr>"

lemma reply_msg_kth: "reply_msg (kth_msg a b k) = kth_msg a b (Suc k)"
  by (simp add: reply_msg_def kth_msg_def first_msg_def mod_simps algebra_simps)

lemma kth_msg_replies: "(reply_msg ^^ k) (first_msg a b) = kth_msg a b k"
  by (induction k) (simp_all add: reply_msg_kth, simp add: kth_msg_def first_msg_def)

end
