(* ===== verification/Spec2Isabelle.thy ===== *)
theory Spec2Isabelle
  imports Message_Properties Table_Properties Router_Properties Server_Properties Node_Properties
    Thread_Properties Arrival_Properties Program_Properties Flow_Properties
    Log_Properties Conversation
begin

text \<open>
  Verification of the message routing system: a router that forwards 32-character messages
  between nodes over TCP, and the node program that talks through it.

  \<^bold>\<open>The program.\<close> A node (\<^verbatim>\<open>node/\<close>) connects to the router, sends its identifier in three
  characters, sends a first message to its destination and then answers every message it receives:
  source and destination exchanged, message type increased by 10 modulo 10000. The router
  (\<^verbatim>\<open>router/\<close>) has an event loop around \<^verbatim>\<open>select\<close>, which accepts connections and puts ready
  sockets into a read queue, read workers, which take a socket from that queue, read an identifier
  or messages from it and put each message with its destination's socket into a write queue, and
  write workers, which send them. Sessions are kept in two hash maps (by socket, by identifier) and
  a vector of accepted sockets; a mutex per session serialises the use of its socket.

  \<^bold>\<open>Theories.\<close>
  \<^item> \<open>Prelude\<close>: the collections of simplification rules, the types shared by all (buffers, sockets,
    outcomes with a C++ exception) and writing into a buffer.
  \<^item> \<open>Cxx_Text\<close>: what the sources use of the C++ library on text: \<^verbatim>\<open>std::stoi\<close> with its two
    exceptions, and \<^verbatim>\<open>setw\<close>/\<^verbatim>\<open>setfill('0')\<close>. The locale \<open>fixed_field\<close> is the contract of a
    decimal field of fixed width, interpreted for identifiers (3) and message types (4).
  \<^item> \<open>Node_Message\<close> (\<^verbatim>\<open>node/include/message.h\<close>) and \<open>Router_Message\<close>
    (\<^verbatim>\<open>router/include/message.h\<close>): building, answering and parsing messages, against the record
    \<open>msg\<close> with its layout \<open>encode_msg\<close> and the reply on fields \<open>reply_msg\<close>.
  \<^item> \<open>Sessions_Table\<close> (\<^verbatim>\<open>session.h\<close>, \<^verbatim>\<open>sessions.cpp\<close>): session objects in a store, the maps hold
    their addresses; the invariant \<open>sessions_inv\<close>; the refinement to \<open>table\<close> (identifier of a
    connection, socket of an identifier); the locale \<open>routing\<close> is what the handlers rely on.
  \<^item> \<open>Signaling_Queue\<close> (\<^verbatim>\<open>signaling_queue.h\<close>): the queue with its sleeping and woken threads; the
    locale \<open>fifo\<close> is its contract.
  \<^item> \<open>Os_Api\<close>: the socket interface as a parameter, with its documented behaviour in locales
    (\<open>recv_api\<close>, \<open>byte_stream\<close>, \<open>quiet_stream\<close>, \<open>timed_stream\<close>, \<open>send_api\<close>, \<open>piece_stream\<close>,
    \<open>descriptor_api\<close>, \<open>fd_set_api\<close>); \<open>Script_Net\<close> has the instances used in concrete runs, a network
    that delivers what has arrived and a slow one with pauses.
  \<^item> \<open>Logger\<close> (\<^verbatim>\<open>logger.h\<close> of the node and the router, which are identical): the wrapper of
    \<^verbatim>\<open>spdlog\<close>, which is a parameter with the contract \<open>spdlog_laws\<close>; a macro without its logger is
    the error \<open>Null_logger\<close>.
  \<^item> \<open>Tcp_Server\<close> (\<^verbatim>\<open>tcpserver.cpp\<close>) and \<open>Tcp_Socket\<close> (\<^verbatim>\<open>tcp_socket.cpp\<close>): the two socket
    classes, both branches of the platform switch.
  \<^item> \<open>Node_Loop\<close> (\<^verbatim>\<open>node.cpp\<close>, \<^verbatim>\<open>node/main.cpp\<close>): sending with retries, the delay, the two
    nested loops, main; the well-formedness \<open>node_ok\<close>; \<open>node_answers\<close> is what the inner loop answers to
    the pieces in which the router's bytes arrive, whatever these are.
  \<^item> \<open>Router_Handlers\<close> (\<^verbatim>\<open>router.cpp\<close>, \<^verbatim>\<open>router/main.cpp\<close>): the handlers, one pass of the event
    loop, start-up and main, as one thread runs them. \<open>Router_Reads\<close> gives the specification of the
    read handler on tables and bytes (\<open>reads_spec\<close>) and proves that the code implements it.
    \<open>Router_Arrivals\<close> does the same for bytes that arrive at any time (\<open>read_turns\<close>).
  \<^item> \<open>Log_Actions\<close>: code that writes log statements, as actions over the log state that can fail or not
    return, with a monotone bind for loops; \<open>transparent\<close> relates an action to the code without its
    log statements. \<open>Log_Records\<close>: the locale \<open>spdlog_records\<close> and the exact records of an action.
  \<^item> \<open>Router_Logs\<close> and \<open>Node_Logs\<close>: every operation of the router and of the node that logs, with all
    its log statements (names ending in \<open>_logging\<close>), and its transparency. \<open>Router_Records\<close> relates the
    router's file log to the messages that it routes.
  \<^item> \<open>Programs\<close> (\<^verbatim>\<open>node/main.cpp\<close>, \<^verbatim>\<open>router/main.cpp\<close>): the two programs with the logger and all log
    statements, related to \<open>node_main\<close> and \<open>router_main\<close>, which leave them out.
  \<^item> \<open>Router_Threads\<close>: the same code cut into steps with program counters, interleaved as
    \<open>thread_step\<close>, with the invariant \<open>threads_inv\<close> for every schedule. \<open>Thread_Handlers\<close> proves that
    a worker or the event loop that runs alone does what \<open>Router_Handlers\<close> says. \<open>Thread_Rest\<close>
    proves that the workers come to rest, with the locale \<open>timed_os\<close> and the measure \<open>work_left\<close>.
    \<open>Thread_Flow\<close> labels the steps with what they do to messages and accounts for every message of a
    run; \<open>Thread_Routing\<close> shows that messages go to their destinations. \<open>Thread_Waiting\<close> adds the
    sleeping and waking of \<^verbatim>\<open>SignalingQueue::pop\<close> and refines it to the blocking queues of
    \<open>Router_Threads\<close>. \<open>Startup\<close> leads from \<^verbatim>\<open>main\<close> to the threads, with the locale \<open>start_os\<close>.
  \<^item> \<open>Conversation\<close>: the router's handlers and the nodes' answers composed to conversations, over the
    locale \<open>link\<close>: \<^verbatim>\<open>send\<close> appends as many bytes as it says to those on their way, and takes a message
    whole if it fits into the send buffer; a node answers the bytes that the router has sent to it.
  \<^item> \<open>Message_Properties\<close>, \<open>Table_Properties\<close>, \<open>Router_Properties\<close>, \<open>Server_Properties\<close>,
    \<open>Node_Properties\<close>, \<open>Thread_Properties\<close>, \<open>Arrival_Properties\<close>, \<open>Program_Properties\<close>,
    \<open>Flow_Properties\<close>, \<open>Log_Properties\<close> and this theory state the properties.

  \<^bold>\<open>What is shown.\<close> Messages: node and router agree on the format, replies are as described, no
  identifier read from the network raises an exception in the router. Tables: routes lead to live
  connections, the operations are the expected map updates. Queues: first in, first out, no lost
  wake-up. Reading: the loop terminates, stays in its buffer, and reassembles messages however the
  network cuts the stream; the handler forwards all complete messages in order, identifies new
  connections and removes closed ones; with any timing of the bytes it still returns and forwards
  only consecutive pieces of the stream. Threads: for every schedule a socket is used by one worker
  at a time, no exception escapes, nothing deadlocks, and the workers finish all work that the
  event loop has given them; no message is lost or duplicated on the way, the order of each source
  is kept up to the write queue, and a message is delivered only to the connection that is
  registered under its destination; all this holds of the program that \<^verbatim>\<open>main\<close> starts, and with the
  waiting at the queues. Together with the nodes' answers to what the router sends, a conversation goes on for ever.
  Node: what it sends on a connection, however the router's bytes are cut, that it stays well-formed
  and keeps trying to connect, and the ways out of its loops. Logger: initialising it makes every log
  statement safe, the log statements of the programs change nothing else, and the router's file log
  has a record for every message that is queued and for every one that is sent. Some properties
  record behaviour that is hardly intended: a node that takes over an identifier loses it when the
  old connection ends, an identification that is no number gets a route that is never erased,
  identifier 999 is refused and the following bytes are misread, two write workers can exchange
  messages, more connections than \<^verbatim>\<open>FD_SETSIZE\<close> are never seen by \<^verbatim>\<open>select\<close>, a message for another node makes a node leak its socket,
  a failed start-up ends in \<^verbatim>\<open>std::terminate\<close>, a message that arrives in two parts is dropped and
  the stream is cut at the wrong place from then on, and a log file that cannot be opened makes
  both programs use a null pointer.

  \<^bold>\<open>Loops.\<close> The loops over \<^verbatim>\<open>recv\<close> and the node's loops are partial functions with \<open>None\<close> for not
  returning; no fuel is used. That \<open>read_async\<close> and \<open>do_reads\<close> return is proved, from the contract
  of \<^verbatim>\<open>recv\<close>. The contract \<open>quiet_stream\<close> fixes the bytes that arrive during one run of a handler;
  \<open>timed_stream\<close> only says that the stream ends some time, without which a sender can keep the
  handler busy for ever. \<open>byte_stream\<close> lets bytes arrive at any time. The node's \<^verbatim>\<open>start\<close> has no normal end in the code.

  \<^bold>\<open>Not modelled.\<close> Log statements in the interleaved threads: they are in the handlers as one thread
  runs them (\<open>Router_Logs\<close>), and the library serialises what several threads write. Memory
  management beyond the buffers' sizes; the build files. The copy that the event loop makes of the vector of accepted sockets without a lock is taken as one step, so the data race
  there is outside of the model. \<^verbatim>\<open>sessions_mutex_\<close> and the queues' mutexes are represented by the
  atomicity of the steps that own them; the only place where one of them could be locked twice by
  its owner is an error value.
\<close>

section \<open>A conversation through the router\<close>

text \<open>A node \<open>a\<close> connects, identifies itself and sends its first message to a node \<open>b\<close> that
  is registered. Reading \<open>a\<close>'s socket registers \<open>a\<close> and queues the message for \<open>b\<close>'s socket; node
  \<open>b\<close>'s reply to that message, arriving on \<open>b\<close>'s socket at any later time while the registrations
  stand, is queued for \<open>a\<close>'s socket.\<close>

lemma conversation_round_trip:
  assumes "quiet_stream api pending pf status" and "sessions_inv (sess R)" and "32 < length buf"
    and "0 \<le> a" and "a < 999" and "0 \<le> b" and "b < 999" and "a \<noteq> b"
    and "conns (table_of (sess R)) sa = Some NONE" and "conns (table_of (sess R)) sb = Some b"
    and "routes (table_of (sess R)) b = Some sb" and "status (world R) sa = Open"
    and "pending (world R) sa = buildIdMessage a @ buildFirstMessage a b"
  shows "\<exists>buf1 R1 reply. do_reads pf api sa buf R = Some (Inr (buf1, R1)) \<and>
    m_queue (write_queue R1) = m_queue (write_queue R) @ [(sb, buildFirstMessage a b)] \<and>
    processMessage b (buildFirstMessage a b) 32 = Inr reply \<and>
    (\<forall>R2. sess R2 = sess R1 \<and> status (world R2) sb = Open \<and> pending (world R2) sb = reply \<longrightarrow>
       (\<exists>buf2 R3. do_reads pf api sb buf R2 = Some (Inr (buf2, R3)) \<and>
          m_queue (write_queue R3) = m_queue (write_queue R2) @ [(sa, reply)]))"
proof -
  let ?t = "table_of (sess R)" and ?m = "first_msg a b"
  let ?u = "tbl_add sa a ?t"
  have ids: "id_ok a" "id_ok b" "a < MAX_CLIENTS_COUNT"
    using assms(4-7) by (simp_all add: id_ok_def MAX_CLIENTS_COUNT_def)
  have nb: "b \<noteq> NONE" using assms(6) by (simp add: NONE_def)
  have ok: "msg_ok ?m" by (rule msg_ok_first [OF ids(1,2)])
  have u: "conns ?u = (conns ?t)(sa \<mapsto> a)" "routes ?u = (routes ?t)(a \<mapsto> sa)"
    using assms(9) ids(3) by (simp_all add: tbl_add_def domIff)
  have sb: "sb \<noteq> sa" using assms(9,10) nb by auto
  have dst: "routes ?u b = Some sb" using assms(8,11) u by simp
  have "do_reads_spec (status (world R) sa) sa (pending (world R) sa) ?t = (?u, [(sb, encode_msg ?m)], [])"
    using reads_spec_session [OF assms(9) ids(1,3), of "[?m]" "[]" Open] ok dst assms(12,13)
    by (simp add: do_reads_spec_def SOCKET_ERROR_def deliveries_def buildFirstMessage_encode)
  from quiet_stream.do_reads_run [OF assms(1,2,9,3) this] obtain buf1 R1 where
    R1: "do_reads pf api sa buf R = Some (Inr (buf1, R1))" "sessions_inv (sess R1)"
      "table_of (sess R1) = ?u"
      "m_queue (write_queue R1) = m_queue (write_queue R) @ [(sb, buildFirstMessage a b)]"
    by (auto simp: buildFirstMessage_encode)
  have reply: "processMessage b (buildFirstMessage a b) 32 = Inr (encode_msg (reply_msg ?m))"
    using processMessage_encode [OF ok, of b "[]"] by (simp add: buildFirstMessage_encode)
  have "\<exists>buf2 R3. do_reads pf api sb buf R2 = Some (Inr (buf2, R3)) \<and>
      m_queue (write_queue R3) = m_queue (write_queue R2) @ [(sa, encode_msg (reply_msg ?m))]"
    if R2: "sess R2 = sess R1" "status (world R2) sb = Open"
      "pending (world R2) sb = encode_msg (reply_msg ?m)" for R2
  proof -
    have c: "conns (table_of (sess R2)) sb = Some b" using assms(10) sb by (simp add: R2 R1(3) u)
    have "m_dst (reply_msg ?m) = a" by (simp add: reply_msg_def first_msg_def)
    then have "do_reads_spec (status (world R2) sb) sb (pending (world R2) sb) (table_of (sess R2)) =
        (table_of (sess R2), [(sa, encode_msg (reply_msg ?m))], [])"
      using reads_spec_msgs [of "table_of (sess R2)" sb "[reply_msg ?m]" "[]" Open] c nb
        msg_ok_reply [OF ok] R2
      by (simp add: do_reads_spec_def SOCKET_ERROR_def deliveries_def R1(3) u)
    from quiet_stream.do_reads_run [OF assms(1) _ c assms(3) this] R1(2) R2(1) show ?thesis by auto
  qed
  with R1(1,4) reply show ?thesis by blast
qed

section \<open>Conversations that go on\<close>

text \<open>C1: A node \<open>a\<close> connects and identifies itself while a node \<open>b\<close> is registered, the send buffers hold
  at least one message and nothing is on its way. Then, for any number \<open>n\<close>, the conversation that \<open>a\<close>
  begins with its first message goes on for \<open>n\<close> exchanges: what the router has sent to the sockets of
  \<open>b\<close> and \<open>a\<close>, in turn, is each time exactly one message, the other node's answer to what was sent to
  it before, the \<open>k\<close>-th message has the type \<open>2200 + 10 k\<close> modulo 10000, and the last answer is
  waiting to be sent.\<close>

theorem conversation_goes_on:
  assumes "link api pending pf status sent sndbuf arrive collect" and "sessions_inv (sess R)" and "32 < length buf"
    and "0 \<le> a" and "a < 999" and "0 \<le> b" and "b < 999" and "a \<noteq> b"
    and "conns (table_of (sess R)) sa = Some NONE" and "conns (table_of (sess R)) sb = Some b"
    and "routes (table_of (sess R)) b = Some sb" and "status (world R) sa = Open" and "status (world R) sb = Open"
    and "pending (world R) sa = buildIdMessage a" and "pending (world R) sb = []" and "m_queue (write_queue R) = []"
    and "sent (world R) sa = []" and "sent (world R) sb = []" and "32 \<le> sndbuf"
  shows "\<exists>buf1 R1. do_reads pf api sa buf R = Some (Inr (buf1, R1)) \<and>
    (\<forall>n. \<exists>buf' R'. conversation pf api sent arrive collect n a sa b sb (buildFirstMessage a b) buf1 R1 =
       Some (map (\<lambda>k. (if even k then sb else sa, encode_msg (kth_msg a b k))) [0..<n],
         encode_msg (kth_msg a b n), buf', R'))"
proof -
  let ?t = "table_of (sess R)"
  have q: "quiet_stream api pending pf status" using assms(1) by (simp add: link_def)
  have ids: "id_ok a" "id_ok b" "a < MAX_CLIENTS_COUNT"
    using assms(4-7) by (simp_all add: id_ok_def MAX_CLIENTS_COUNT_def)
  have u: "conns (tbl_add sa a ?t) = (conns ?t)(sa \<mapsto> a)" "routes (tbl_add sa a ?t) = (routes ?t)(a \<mapsto> sa)"
    using assms(9) ids(3) by (simp_all add: tbl_add_def domIff)
  have sb: "sb \<noteq> sa" using assms(6,9,10) by (auto simp: NONE_def)
  have spec: "do_reads_spec (status (world R) sa) sa (pending (world R) sa) ?t = (tbl_add sa a ?t, [], [])"
    using reads_spec_session [OF assms(9) ids(1,3), of "[]" "[]" Open] assms(12,14)
    by (simp add: do_reads_spec_def SOCKET_ERROR_def deliveries_def)
  obtain r where r: "sessions_by_socket (sess R) sa = Some r"
    using assms(9) conns_None_iff [OF assms(2), of sa] by fastforce
  obtain buf1 R1 where R1: "do_reads pf api sa buf R = Some (Inr (buf1, R1))" "sessions_inv (sess R1)"
    "table_of (sess R1) = tbl_add sa a ?t" "m_queue (write_queue R1) = []" "length buf1 = length buf"
    "pending (world R1) = (pending (world R))(sa := [])" "status (world R1) = status (world R)"
    by (rule quiet_stream.do_reads_refines [OF q assms(2) r assms(3) spec]) (use assms(16) in simp)
  have "link.talking pending status sent a sa b sb buf1 R1"
    using R1 assms sb u do_reads_keeps_world [OF link.recv_keeps_sent [OF assms(1)] R1(1)]
    by (simp add: link.talking_def [OF assms(1)])
  moreover have "msg_ok (first_msg a b)" by (rule msg_ok_first [OF ids(1,2)])
  moreover have "m_src (first_msg a b) = a" by (simp add: first_msg_def)
  ultimately show ?thesis
    using R1(1) link.conversation_runs [OF assms(1) _ _ _ _ assms(19), of a sa b sb buf1 R1 "first_msg a b"]
    by (simp add: buildFirstMessage_encode kth_msg_replies) blast
qed

theorem conversation_goes_on_witness:
  "\<exists>buf1 R1 buf' R'. do_reads Win32 sample_api 5 sample_buf (sample_router 999 [''007''] Open) =
       Some (Inr (buf1, R1)) \<and>
     conversation Win32 sample_api net_sent net_arrive net_collect 3 7 5 3 4 ''00722001234561111111111111111003'' buf1 R1 =
       Some ([(4, ''00722001234561111111111111111003''), (5, ''00322101234561111111111111111007''),
           (4, ''00722201234561111111111111111003'')], ''00322301234561111111111111111007'', buf', R')"
proof -
  let ?R = "sample_router 999 [''007''] Open"
  have e: "buildIdMessage 7 = ''007''" "buildFirstMessage 7 3 = ''00722001234561111111111111111003''"
    "map (\<lambda>k. (if even k then 4 else 5 :: int, encode_msg (kth_msg 7 3 k))) [0..<3] =
      [(4, ''00722001234561111111111111111003''), (5, ''00322101234561111111111111111007''),
       (4, ''00722201234561111111111111111003'')]"
    "encode_msg (kth_msg 7 3 3) = ''00322301234561111111111111111007''" by code_simp+
  have t: "conns (table_of (sess ?R)) 4 = Some 3" "routes (table_of (sess ?R)) 3 = Some 4"
    by (simp_all add: sample_router_def sample_defs)
  have p: "net_pending (world ?R) 5 = buildIdMessage 7" "net_pending (world ?R) 4 = []"
    "net_status (world ?R) 4 = Open" "m_queue (write_queue ?R) = []"
    by (simp_all add: sample_world e) (simp_all add: sample_router_def sample_net_def net_pending_def squeue0_def)
  have o: "net_sent (world ?R) 5 = []" "net_sent (world ?R) 4 = []"
    by (simp_all add: sample_router_def sample_net_def net_sent_def)
  from conversation_goes_on [OF net_l.link_axioms [of Win32 64 2048] sample_inv _ _ _ _ _ _ sample_conns(1) t
      sample_world(2) p(3,1,2,4) o, of sample_buf]
  obtain buf1 R1 where d: "do_reads Win32 sample_api 5 sample_buf ?R = Some (Inr (buf1, R1))"
    and "\<forall>n. \<exists>buf' R'. conversation Win32 sample_api net_sent net_arrive net_collect n 7 5 3 4 (buildFirstMessage 7 3) buf1 R1 =
       Some (map (\<lambda>k. (if even k then 4 else 5, encode_msg (kth_msg 7 3 k))) [0..<n],
         encode_msg (kth_msg 7 3 n), buf', R')" by auto
  from this(2) [THEN spec, of 3] d show ?thesis unfolding e(2-4) by blast
qed

end
